theory Spec2Isabelle
  imports Main "HOL-Library.Sublist" "HOL-Library.AList"
begin

section \<open>JavaScript strings\<close>

text \<open>
  A JavaScript string is a sequence of UTF-16 code units. The code units are modelled as
  natural numbers, so that the en dash of the prompt template (U+2013), the white space
  characters beyond Latin-1 and the results of \<^verbatim>\<open>\uXXXX\<close> escapes are ordinary elements.
  \<open>lit\<close> turns an ASCII literal of the theory into its code units.
\<close>

type_synonym ustring = "nat list"

definition lit :: "string \<Rightarrow> ustring" where
  "lit s = map of_char s"

text \<open>The class \<^verbatim>\<open>\s\<close> of a regular expression, which is also what \<^verbatim>\<open>trim()\<close> removes:
  the WhiteSpace and LineTerminator code points of ECMAScript.\<close>

definition is_space :: "nat \<Rightarrow> bool" where
  "is_space c \<longleftrightarrow>
     (9 \<le> c \<and> c \<le> 13) \<or> c = 32 \<or> c = 160 \<or> c = 5760 \<or> (8192 \<le> c \<and> c \<le> 8202) \<or>
     c = 8232 \<or> c = 8233 \<or> c = 8239 \<or> c = 8287 \<or> c = 12288 \<or> c = 65279"

definition trim :: "ustring \<Rightarrow> ustring" where
  "trim s = rev (dropWhile is_space (rev (dropWhile is_space s)))"

text \<open>\<^verbatim>\<open>String.prototype.includes\<close>: the pattern occurs at some position.\<close>

fun includes_str :: "ustring \<Rightarrow> ustring \<Rightarrow> bool" where
  "includes_str p [] = (p = [])"
| "includes_str p (c # cs) = (prefix p (c # cs) \<or> includes_str p cs)"

text \<open>\<^verbatim>\<open>s.substring(0, n)\<close> for a non-negative \<open>n\<close>.\<close>

definition substring0 :: "nat \<Rightarrow> ustring \<Rightarrow> ustring" where
  "substring0 n s = take n s"

section \<open>JSON values and \<^verbatim>\<open>JSON.parse\<close>\<close>

text \<open>
  The values \<^verbatim>\<open>JSON.parse\<close> builds. A number keeps its source text (the double it denotes
  is not computed); an object is the list of its members in insertion order, a repeated
  key overwriting the earlier member in place. (JavaScript enumerates keys that are array
  indices first; nothing here depends on the order of enumeration.)
\<close>

datatype json =
    JNull
  | JBool bool
  | JNum ustring
  | JStr ustring
  | JArray "json list"
  | JObject "(ustring \<times> json) list"

text \<open>
  \<^verbatim>\<open>JSON.parse\<close> is a builtin of the platform; it is modelled by a deterministic pushdown
  recogniser of the JSON grammar of ECMA-404 that reads the text one code unit at a time
  and builds the value on its stack. The recogniser has two layers: the scanner groups
  code units into tokens, the parser consumes the tokens.
\<close>

datatype token = LBrace | RBrace | LBrack | RBrack | Comma | Colon | Atom json

text \<open>An open container on the stack: an array with the elements read so far, an object
  with the members read so far, or an object waiting for the value of a key.\<close>

datatype frame =
    InArr "json list"
  | InObj "(ustring \<times> json) list"
  | InMember "(ustring \<times> json) list" ustring

text \<open>What the parser expects next.\<close>

datatype expect =
    EValue        \<comment> \<open>a value: at the start, after a colon, after a comma in an array\<close>
  | EValueOrEnd   \<comment> \<open>just after \<^verbatim>\<open>[\<close>\<close>
  | EKeyOrEnd     \<comment> \<open>just after \<^verbatim>\<open>{\<close>\<close>
  | EKey          \<comment> \<open>after a comma in an object\<close>
  | EColon        \<comment> \<open>after a key\<close>
  | ESep          \<comment> \<open>after a value inside a container: a comma or the closing bracket\<close>
  | EDone json    \<comment> \<open>the top-level value is complete\<close>

type_synonym pstate = "expect \<times> frame list"

fun deliver :: "json \<Rightarrow> frame list \<Rightarrow> pstate option" where
  "deliver v [] = Some (EDone v, [])"
| "deliver v (InArr xs # st) = Some (ESep, InArr (xs @ [v]) # st)"
| "deliver v (InMember kvs k # st) = Some (ESep, InObj (AList.update k v kvs) # st)"
| "deliver v (InObj kvs # st) = None"

fun open_value :: "token \<Rightarrow> frame list \<Rightarrow> pstate option" where
  "open_value (Atom v) st = deliver v st"
| "open_value LBrack st = Some (EValueOrEnd, InArr [] # st)"
| "open_value LBrace st = Some (EKeyOrEnd, InObj [] # st)"
| "open_value _ st = None"

fun open_key :: "token \<Rightarrow> frame list \<Rightarrow> pstate option" where
  "open_key (Atom (JStr k)) (InObj kvs # st) = Some (EColon, InMember kvs k # st)"
| "open_key _ _ = None"

fun close_arr :: "frame list \<Rightarrow> pstate option" where
  "close_arr (InArr xs # st) = deliver (JArray xs) st"
| "close_arr _ = None"

fun close_obj :: "frame list \<Rightarrow> pstate option" where
  "close_obj (InObj kvs # st) = deliver (JObject kvs) st"
| "close_obj _ = None"

fun separator :: "token \<Rightarrow> frame list \<Rightarrow> pstate option" where
  "separator Comma (InArr xs # st) = Some (EValue, InArr xs # st)"
| "separator Comma (InObj kvs # st) = Some (EKey, InObj kvs # st)"
| "separator RBrack st = close_arr st"
| "separator RBrace st = close_obj st"
| "separator _ _ = None"

fun feed :: "token \<Rightarrow> pstate \<Rightarrow> pstate option" where
  "feed t (EValue, st) = open_value t st"
| "feed t (EValueOrEnd, st) = (if t = RBrack then close_arr st else open_value t st)"
| "feed t (EKeyOrEnd, st) = (if t = RBrace then close_obj st else open_key t st)"
| "feed t (EKey, st) = open_key t st"
| "feed t (EColon, st) = (if t = Colon then Some (EValue, st) else None)"
| "feed t (ESep, st) = separator t st"
| "feed t (EDone v, st) = None"

text \<open>The scanner. A number is read through the phases of its grammar
  \<^verbatim>\<open>-? (0 | [1-9][0-9]*) (. [0-9]+)? ([eE] [+-]? [0-9]+)?\<close>.\<close>

datatype numphase = NMinus | NZero | NInt | NDot | NFrac | NE | NESign | NExp

text \<open>The three literal names.\<close>

datatype literal = LitTrue | LitFalse | LitNull

fun literal_text :: "literal \<Rightarrow> ustring" where
  "literal_text LitTrue = [116, 114, 117, 101]"
| "literal_text LitFalse = [102, 97, 108, 115, 101]"
| "literal_text LitNull = [110, 117, 108, 108]"

fun literal_value :: "literal \<Rightarrow> json" where
  "literal_value LitTrue = JBool True"
| "literal_value LitFalse = JBool False"
| "literal_value LitNull = JNull"

datatype lstate =
    LIdle                       \<comment> \<open>between tokens\<close>
  | LStr ustring                \<comment> \<open>inside a string, with the code units decoded so far\<close>
  | LEsc ustring                \<comment> \<open>after a backslash inside a string\<close>
  | LUni ustring nat nat        \<comment> \<open>inside \<^verbatim>\<open>\uXXXX\<close>: digits read, their value\<close>
  | LNum numphase ustring       \<comment> \<open>inside a number, with its text so far\<close>
  | LLit literal nat            \<comment> \<open>inside a literal name: the number of letters read\<close>

type_synonym jstate = "lstate \<times> pstate"

definition is_json_ws :: "nat \<Rightarrow> bool" where
  "is_json_ws c \<longleftrightarrow> c = 32 \<or> c = 9 \<or> c = 10 \<or> c = 13"

definition is_digit :: "nat \<Rightarrow> bool" where
  "is_digit c \<longleftrightarrow> 48 \<le> c \<and> c \<le> 57"

definition hexval :: "nat \<Rightarrow> nat option" where
  "hexval c =
     (if 48 \<le> c \<and> c \<le> 57 then Some (c - 48)
      else if 97 \<le> c \<and> c \<le> 102 then Some (c - 87)
      else if 65 \<le> c \<and> c \<le> 70 then Some (c - 55)
      else None)"

fun num_cont :: "numphase \<Rightarrow> nat \<Rightarrow> numphase option" where
  "num_cont NMinus c = (if c = 48 then Some NZero else if is_digit c then Some NInt else None)"
| "num_cont NZero c =
     (if c = 46 then Some NDot else if c = 101 \<or> c = 69 then Some NE else None)"
| "num_cont NInt c =
     (if is_digit c then Some NInt else if c = 46 then Some NDot
      else if c = 101 \<or> c = 69 then Some NE else None)"
| "num_cont NDot c = (if is_digit c then Some NFrac else None)"
| "num_cont NFrac c =
     (if is_digit c then Some NFrac else if c = 101 \<or> c = 69 then Some NE else None)"
| "num_cont NE c =
     (if c = 43 \<or> c = 45 then Some NESign else if is_digit c then Some NExp else None)"
| "num_cont NESign c = (if is_digit c then Some NExp else None)"
| "num_cont NExp c = (if is_digit c then Some NExp else None)"

fun num_final :: "numphase \<Rightarrow> bool" where
  "num_final NZero = True"
| "num_final NInt = True"
| "num_final NFrac = True"
| "num_final NExp = True"
| "num_final _ = False"

definition emit :: "token \<Rightarrow> pstate \<Rightarrow> jstate option" where
  "emit t p = map_option (Pair LIdle) (feed t p)"

definition idle_step :: "nat \<Rightarrow> pstate \<Rightarrow> jstate option" where
  "idle_step c p =
     (if is_json_ws c then Some (LIdle, p)
      else if c = 123 then emit LBrace p
      else if c = 125 then emit RBrace p
      else if c = 91 then emit LBrack p
      else if c = 93 then emit RBrack p
      else if c = 44 then emit Comma p
      else if c = 58 then emit Colon p
      else if c = 34 then Some (LStr [], p)
      else if c = 45 then Some (LNum NMinus [c], p)
      else if c = 48 then Some (LNum NZero [c], p)
      else if is_digit c then Some (LNum NInt [c], p)
      else if c = 116 then Some (LLit LitTrue 1, p)
      else if c = 102 then Some (LLit LitFalse 1, p)
      else if c = 110 then Some (LLit LitNull 1, p)
      else None)"

fun step :: "nat \<Rightarrow> jstate \<Rightarrow> jstate option" where
  "step c (LIdle, p) = idle_step c p"
| "step c (LStr acc, p) =
     (if c = 34 then emit (Atom (JStr acc)) p
      else if c = 92 then Some (LEsc acc, p)
      else if c < 32 then None
      else Some (LStr (acc @ [c]), p))"
| "step c (LEsc acc, p) =
     (if c = 34 \<or> c = 92 \<or> c = 47 then Some (LStr (acc @ [c]), p)
      else if c = 98 then Some (LStr (acc @ [8]), p)
      else if c = 102 then Some (LStr (acc @ [12]), p)
      else if c = 110 then Some (LStr (acc @ [10]), p)
      else if c = 114 then Some (LStr (acc @ [13]), p)
      else if c = 116 then Some (LStr (acc @ [9]), p)
      else if c = 117 then Some (LUni acc 0 0, p)
      else None)"
| "step c (LUni acc n v, p) =
     (case hexval c of
        None \<Rightarrow> None
      | Some d \<Rightarrow>
          if n = 3 then Some (LStr (acc @ [16 * v + d]), p)
          else Some (LUni acc (Suc n) (16 * v + d), p))"
| "step c (LNum ph lx, p) =
     (case num_cont ph c of
        Some ph' \<Rightarrow> Some (LNum ph' (lx @ [c]), p)
      | None \<Rightarrow>
          if num_final ph then
            (case feed (Atom (JNum lx)) p of None \<Rightarrow> None | Some p' \<Rightarrow> idle_step c p')
          else None)"
| "step c (LLit w n, p) =
     (if n < length (literal_text w) \<and> c = literal_text w ! n then
        if Suc n = length (literal_text w) then emit (Atom (literal_value w)) p
        else Some (LLit w (Suc n), p)
      else None)"

fun run :: "jstate \<Rightarrow> ustring \<Rightarrow> jstate option" where
  "run s [] = Some s"
| "run s (c # cs) = (case step c s of None \<Rightarrow> None | Some s' \<Rightarrow> run s' cs)"

text \<open>At the end of the text a pending number is complete; the parse succeeds when the
  top-level value is.\<close>

fun result :: "pstate \<Rightarrow> json option" where
  "result (EDone v, []) = Some v"
| "result _ = None"

fun finish :: "jstate \<Rightarrow> json option" where
  "finish (LIdle, p) = result p"
| "finish (LNum ph lx, p) =
     (if num_final ph then
        (case feed (Atom (JNum lx)) p of None \<Rightarrow> None | Some p' \<Rightarrow> result p')
      else None)"
| "finish _ = None"

definition JSON_parse :: "ustring \<Rightarrow> json option" where
  "JSON_parse s = (case run (LIdle, (EValue, [])) s of None \<Rightarrow> None | Some st \<Rightarrow> finish st)"

subsection \<open>Parser states that cannot yield an object\<close>

text \<open>States from which no object can be the result: the top-level value is complete and
  is not an object, or it is a string, number or literal being read, or it is an array.\<close>

fun is_object :: "json \<Rightarrow> bool" where
  "is_object (JObject kvs) = True"
| "is_object _ = False"

definition array_bottom :: "frame list \<Rightarrow> bool" where
  "array_bottom st \<longleftrightarrow> st \<noteq> [] \<and> (\<exists>xs. last st = InArr xs)"

fun no_object_p :: "pstate \<Rightarrow> bool" where
  "no_object_p (EDone v, []) = (\<not> is_object v)"
| "no_object_p (e, st) = array_bottom st"

definition no_object :: "jstate \<Rightarrow> bool" where
  "no_object s \<longleftrightarrow> no_object_p (snd s) \<or> (snd s = (EValue, []) \<and> fst s \<noteq> LIdle)"

section \<open>The response repair engine\<close>

text \<open>\<^verbatim>\<open>parseAIResponse\<close>, lines 547 to 654 of \<^verbatim>\<open>src/backend/src/index.ts\<close>.\<close>

subsection \<open>The regular expressions of \<^verbatim>\<open>parseAIResponse\<close>\<close>

text \<open>Matching under the flag \<^verbatim>\<open>i\<close> canonicalises ASCII letters only: a code unit
  above 127 never matches an ASCII letter.\<close>

definition ascii_lower :: "nat \<Rightarrow> nat" where
  "ascii_lower c = (if 65 \<le> c \<and> c \<le> 90 then c + 32 else c)"

text \<open>\<^verbatim>\<open>s.replace(/^```json\s*/i, '')\<close>\<close>

definition stripFenceJson :: "ustring \<Rightarrow> ustring" where
  "stripFenceJson s =
     (if map ascii_lower (take 7 s) = lit ''```json'' then dropWhile is_space (drop 7 s) else s)"

text \<open>\<^verbatim>\<open>s.replace(/^```\s*/, '')\<close>\<close>

definition stripFence :: "ustring \<Rightarrow> ustring" where
  "stripFence s = (if take 3 s = lit ''```'' then dropWhile is_space (drop 3 s) else s)"

text \<open>\<^verbatim>\<open>s.replace(/\s*```$/, '')\<close>: the match starts at the leftmost position from which
  only white space and the three backquotes remain, and is removed.\<close>

fun stripFenceEnd :: "ustring \<Rightarrow> ustring" where
  "stripFenceEnd [] = []"
| "stripFenceEnd (c # cs) =
     (if dropWhile is_space (c # cs) = lit ''```'' then [] else c # stripFenceEnd cs)"

text \<open>\<^verbatim>\<open>s.match(/\{[\s\S]*\}/)\<close>: from the first opening brace to the last closing brace
  after it; no match when there is no such pair.\<close>

definition braceSpan :: "ustring \<Rightarrow> ustring option" where
  "braceSpan s =
     (case dropWhile (\<lambda>c. c \<noteq> 123) s of
        [] \<Rightarrow> None
      | b # rest \<Rightarrow>
          if 125 \<in> set rest then Some (b # rev (dropWhile (\<lambda>c. c \<noteq> 125) (rev rest)))
          else None)"

text \<open>\<^verbatim>\<open>s.match(/\{[\s\S]*"schedule":\s*\[[\s\S]*/)\<close>: from the first opening brace to the
  end of the text, provided that \<^verbatim>\<open>"schedule":\<close>, white space and an opening bracket
  occur somewhere after that brace.\<close>

definition scheduleArrayAt :: "ustring \<Rightarrow> bool" where
  "scheduleArrayAt s \<longleftrightarrow>
     prefix (lit ''\"schedule\":'') s \<and>
     (case dropWhile is_space (drop 11 s) of [] \<Rightarrow> False | c # _ \<Rightarrow> c = 91)"

fun hasScheduleArray :: "ustring \<Rightarrow> bool" where
  "hasScheduleArray [] = False"
| "hasScheduleArray (c # cs) = (scheduleArrayAt (c # cs) \<or> hasScheduleArray cs)"

definition scheduleMatch :: "ustring \<Rightarrow> ustring option" where
  "scheduleMatch s =
     (case dropWhile (\<lambda>c. c \<noteq> 123) s of
        [] \<Rightarrow> None
      | b # rest \<Rightarrow> if hasScheduleArray rest then Some (b # rest) else None)"

text \<open>\<^verbatim>\<open>(s.match(/\[/g) || []).length\<close> and its three siblings count one code unit.\<close>

definition countChar :: "nat \<Rightarrow> ustring \<Rightarrow> nat" where
  "countChar c s = length (filter (\<lambda>x. x = c) s)"

text \<open>\<^verbatim>\<open>s.replace(/,\s*$/, '')\<close>: a comma followed by white space only, up to the end.\<close>

fun stripTrailingComma :: "ustring \<Rightarrow> ustring" where
  "stripTrailingComma [] = []"
| "stripTrailingComma (c # cs) =
     (if c = 44 \<and> list_all is_space cs then [] else c # stripTrailingComma cs)"

text \<open>\<^verbatim>\<open>/"key":\s*"[^"]+"/\<close> tried at the start of the text: the matched text, if any.\<close>

definition fieldMatchAt :: "ustring \<Rightarrow> ustring \<Rightarrow> ustring option" where
  "fieldMatchAt key s =
     (let k = 34 # key @ [34, 58] in
      if \<not> prefix k s then None
      else
        let r = drop (length k) s; ws = takeWhile is_space r in
        (case dropWhile is_space r of
           [] \<Rightarrow> None
         | q # r' \<Rightarrow>
             let v = takeWhile (\<lambda>c. c \<noteq> 34) r' in
             if q = 34 \<and> v \<noteq> [] \<and> dropWhile (\<lambda>c. c \<noteq> 34) r' \<noteq> [] then Some (k @ ws @ [34] @ v @ [34])
             else None))"

text \<open>\<^verbatim>\<open>s.match(/"key":\s*"[^"]+"/g)\<close>: all matches from left to right, the search resuming
  after each match; the first argument counts the code units of the last match still to
  be skipped. JavaScript returns \<^verbatim>\<open>null\<close> where the list is empty.\<close>

fun matchAllFrom :: "ustring \<Rightarrow> nat \<Rightarrow> ustring \<Rightarrow> ustring list" where
  "matchAllFrom key n [] = []"
| "matchAllFrom key (Suc n) (c # cs) = matchAllFrom key n cs"
| "matchAllFrom key 0 (c # cs) =
     (case fieldMatchAt key (c # cs) of
        None \<Rightarrow> matchAllFrom key 0 cs
      | Some m \<Rightarrow> m # matchAllFrom key (length m - 1) cs)"

definition matchAll :: "ustring \<Rightarrow> ustring \<Rightarrow> ustring list" where
  "matchAll key s = matchAllFrom key 0 s"

text \<open>\<^verbatim>\<open>m.match(/"([^"]+)"/)?.[1]\<close>: the capture group of the leftmost match, if any.\<close>

fun firstQuoted :: "ustring \<Rightarrow> ustring option" where
  "firstQuoted [] = None"
| "firstQuoted (c # cs) =
     (if c = 34 \<and> takeWhile (\<lambda>x. x \<noteq> 34) cs \<noteq> [] \<and> dropWhile (\<lambda>x. x \<noteq> 34) cs \<noteq> []
      then Some (takeWhile (\<lambda>x. x \<noteq> 34) cs)
      else firstQuoted cs)"

text \<open>\<^verbatim>\<open>capture || dflt\<close>: an absent or empty capture gives the default.\<close>

definition orDefault :: "ustring option \<Rightarrow> ustring \<Rightarrow> ustring" where
  "orDefault cap dflt = (case cap of None \<Rightarrow> dflt | Some v \<Rightarrow> if v = [] then dflt else v)"

subsection \<open>\<^verbatim>\<open>parseAIResponse\<close>\<close>

datatype error = Error ustring

definition fallbackSummary :: ustring where
  "fallbackSummary = lit ''Daily schedule generated based on your preferences and tasks.''"

text \<open>The three chained replacements that remove the markdown code block markers.\<close>

definition cleanFences :: "ustring \<Rightarrow> ustring" where
  "cleanFences s = stripFenceEnd (stripFence (stripFenceJson s))"

definition extractBraces :: "ustring \<Rightarrow> ustring" where
  "extractBraces s = (case braceSpan s of None \<Rightarrow> s | Some m \<Rightarrow> m)"

text \<open>The repair of a text that looks cut off. The four counts are taken before the
  trailing comma is removed, as in the source.\<close>

definition closeSchedule :: "ustring \<Rightarrow> ustring" where
  "closeSchedule m =
     (let openBrackets = countChar 91 m; closeBrackets = countChar 93 m;
          openBraces = countChar 123 m; closeBraces = countChar 125 m;
          s1 = stripTrailingComma m;
          s2 = s1 @ replicate (openBrackets - closeBrackets) 93;
          s3 = (if \<not> includes_str (lit ''\"summary\"'') s2
                then s2 @ lit '', \"summary\": \"'' @ fallbackSummary @ lit ''\"''
                else s2)
      in s3 @ replicate (openBraces - closeBraces) 125)"

definition repairTruncated :: "ustring \<Rightarrow> ustring" where
  "repairTruncated c =
     (if includes_str (lit ''\"schedule\"'') c \<and> \<not> includes_str (lit ''\"summary\"'') c then
        (case scheduleMatch c of None \<Rightarrow> c | Some m \<Rightarrow> closeSchedule m)
      else c)"

text \<open>The text handed to the second \<^verbatim>\<open>JSON.parse\<close>.\<close>

definition cleanedContent :: "ustring \<Rightarrow> ustring" where
  "cleanedContent rawContent =
     repairTruncated (trim (extractBraces (cleanFences (trim rawContent))))"

definition scheduleItem :: "ustring \<Rightarrow> ustring \<Rightarrow> ustring \<Rightarrow> ustring \<Rightarrow> json" where
  "scheduleItem t a d y =
     JObject [(lit ''time'', JStr t), (lit ''activity'', JStr a),
              (lit ''duration'', JStr d), (lit ''type'', JStr y)]"

definition plan :: "json list \<Rightarrow> ustring \<Rightarrow> json" where
  "plan items summary = JObject [(lit ''schedule'', JArray items), (lit ''summary'', JStr summary)]"

text \<open>The item built from the matches at one index.\<close>

definition scrapedItem :: "ustring \<Rightarrow> ustring \<Rightarrow> ustring \<Rightarrow> ustring \<Rightarrow> json" where
  "scrapedItem tm am dm ym =
     scheduleItem (orDefault (firstQuoted tm) (lit ''09:00''))
                  (orDefault (firstQuoted am) (lit ''Task''))
                  (orDefault (firstQuoted dm) (lit ''30''))
                  (orDefault (firstQuoted ym) (lit ''task''))"

definition scrapedItems :: "ustring \<Rightarrow> json list" where
  "scrapedItems c =
     (let timeMatches = matchAll (lit ''time'') c;
          activityMatches = matchAll (lit ''activity'') c;
          durationMatches = matchAll (lit ''duration'') c;
          typeMatches = matchAll (lit ''type'') c
      in if timeMatches \<noteq> [] \<and> activityMatches \<noteq> [] \<and> durationMatches \<noteq> [] \<and> typeMatches \<noteq> [] then
           let minLength = min (min (length timeMatches) (length activityMatches))
                               (min (length durationMatches) (length typeMatches))
           in map (\<lambda>i. scrapedItem (timeMatches ! i) (activityMatches ! i)
                                     (durationMatches ! i) (typeMatches ! i)) [0..<minLength]
         else [])"

text \<open>The body of the inner \<^verbatim>\<open>try\<close>. Nothing in it can throw: it always returns.\<close>

definition scrapeFields :: "ustring \<Rightarrow> error + json" where
  "scrapeFields c = Inr (plan (scrapedItems c) fallbackSummary)"

definition ultimateFallback :: json where
  "ultimateFallback =
     plan [scheduleItem (lit ''09:00'') (lit ''Morning Task'') (lit ''60'') (lit ''task''),
           scheduleItem (lit ''10:00'') (lit ''Break'') (lit ''15'') (lit ''break''),
           scheduleItem (lit ''10:15'') (lit ''Work Session'') (lit ''90'') (lit ''task''),
           scheduleItem (lit ''11:45'') (lit ''Lunch'') (lit ''60'') (lit ''meal'')]
          (lit ''Basic daily schedule created as fallback.'')"

text \<open>\<^verbatim>\<open>try { body } catch { return the ultimate fallback }\<close>, for any body.\<close>

definition lastResort :: "(ustring \<Rightarrow> error + json) \<Rightarrow> ustring \<Rightarrow> json" where
  "lastResort body c = (case body c of Inr v \<Rightarrow> v | Inl e \<Rightarrow> ultimateFallback)"

definition unrecoverable :: "ustring \<Rightarrow> error" where
  "unrecoverable rawContent =
     Error (lit ''Cannot extract valid JSON from AI response: '' @ substring0 200 rawContent @ lit ''...'')"

text \<open>The cascade. The body of the inner \<^verbatim>\<open>try\<close> is a parameter, so that the
  \<^verbatim>\<open>catch\<close> around it is written once, as in the source, whatever the body does.\<close>

definition parseAIResponse_with :: "(ustring \<Rightarrow> error + json) \<Rightarrow> ustring \<Rightarrow> error + json" where
  "parseAIResponse_with body rawContent =
     (case JSON_parse rawContent of
        Some v \<Rightarrow> Inr v
      | None \<Rightarrow>
          let cleaned = cleanedContent rawContent in
          (case JSON_parse cleaned of
             Some v \<Rightarrow> Inr v
           | None \<Rightarrow>
               if includes_str (lit ''\"schedule\"'') cleaned then Inr (lastResort body cleaned)
               else Inl (unrecoverable rawContent)))"

definition parseAIResponse :: "ustring \<Rightarrow> error + json" where
  "parseAIResponse rawContent = parseAIResponse_with scrapeFields rawContent"

section \<open>The prompt builder\<close>

text \<open>\<^verbatim>\<open>buildPrompt\<close>, lines 501 to 544 of \<^verbatim>\<open>src/backend/src/index.ts\<close>.\<close>

text \<open>
  A JavaScript number is a double. The code uses the numbers it is given in two ways only:
  it tests them with \<^verbatim>\<open>||\<close> and it prints them in a template literal. A number is
  therefore represented by the text that \<^verbatim>\<open>ToString\<close> gives for it, such as \<^verbatim>\<open>45\<close>,
  \<^verbatim>\<open>45.5\<close>, \<^verbatim>\<open>1e+21\<close>, \<^verbatim>\<open>Infinity\<close> or \<^verbatim>\<open>NaN\<close>; no arithmetic on doubles is modelled. The
  falsy numbers are the two zeros and NaN, which are exactly the numbers printed as
  \<^verbatim>\<open>0\<close> and as \<^verbatim>\<open>NaN\<close>.
\<close>

datatype jsnumber = Number ustring

fun numberText :: "jsnumber \<Rightarrow> ustring" where
  "numberText (Number s) = s"

definition falsyNumber :: "jsnumber \<Rightarrow> bool" where
  "falsyNumber n \<longleftrightarrow> numberText n = lit ''0'' \<or> numberText n = lit ''NaN''"

text \<open>
  The rows the prompt is built from. A column is \<open>None\<close> where the row has \<^verbatim>\<open>null\<close> or no
  such property. \<open>duration_minutes\<close> and \<open>break_interval_minutes\<close> are numbers.
  \<open>row_json\<close> is the text \<^verbatim>\<open>JSON.stringify\<close> gives for the preferences row.
\<close>

record task =
  title :: "ustring option"
  duration_minutes :: "jsnumber option"
  importance :: "ustring option"

record prefs =
  city :: "ustring option"
  wake_time :: "ustring option"
  sleep_time :: "ustring option"
  break_interval_minutes :: "jsnumber option"
  row_json :: ustring

text \<open>Of the weather object the code reads the description of its first entry and the
  temperature, a number; a property is \<open>None\<close> where the path to it ends in \<^verbatim>\<open>undefined\<close>.\<close>

record weather =
  description :: "ustring option"
  temp :: "jsnumber option"

text \<open>\<^verbatim>\<open>${x || dflt}\<close> for a string and for a number: \<^verbatim>\<open>null\<close>, the empty string, zero and
  NaN are falsy and give the text of the default; any other value is printed.\<close>

definition orText :: "ustring option \<Rightarrow> ustring \<Rightarrow> ustring" where
  "orText x dflt = (case x of None \<Rightarrow> dflt | Some s \<Rightarrow> if s = [] then dflt else s)"

definition orNumber :: "jsnumber option \<Rightarrow> ustring \<Rightarrow> ustring" where
  "orNumber x dflt =
     (case x of None \<Rightarrow> dflt | Some n \<Rightarrow> if falsyNumber n then dflt else numberText n)"

text \<open>\<^verbatim>\<open>Array.prototype.join\<close>\<close>

fun joinWith :: "ustring \<Rightarrow> ustring list \<Rightarrow> ustring" where
  "joinWith sep [] = []"
| "joinWith sep [x] = x"
| "joinWith sep (x # y # ys) = x @ sep @ joinWith sep (y # ys)"

text \<open>One line of the task list; the separator is an en dash between two spaces.\<close>

definition taskLine :: "task \<Rightarrow> ustring" where
  "taskLine t =
     orText (title t) (lit ''Untitled'') @ [32, 8211, 32] @
     orNumber (duration_minutes t) (lit ''30'') @ lit ''m'' @ [32, 8211, 32] @
     orText (importance t) (lit ''medium'')"

definition promptHead :: "prefs option \<Rightarrow> weather option \<Rightarrow> ustring" where
  "promptHead p w =
     lit ''You are a personal day planning assistant. Create an optimized daily schedule in JSON format.\<newline>\<newline>User preferences: '' @
     (case p of None \<Rightarrow> lit ''{}'' | Some r \<Rightarrow> row_json r) @
     lit ''\<newline>Weather: '' @
     orText (case w of None \<Rightarrow> None | Some x \<Rightarrow> description x) (lit ''unknown'') @
     lit '', '' @
     orNumber (case w of None \<Rightarrow> None | Some x \<Rightarrow> temp x) (lit ''unknown'') @
     [176] @ lit ''C\<newline>Tasks to schedule:\<newline>''"

definition promptTail :: "prefs option \<Rightarrow> ustring" where
  "promptTail p =
     lit ''\<newline>\<newline>IMPORTANT: You must respond with COMPLETE, VALID JSON only. No markdown, no explanations, no comments.\<newline>\<newline>Generate a JSON response with this EXACT structure:\<newline>{\<newline>  \"schedule\": [\<newline>    {\<newline>      \"time\": \"HH:MM\",\<newline>      \"activity\": \"task or break name\",\<newline>      \"duration\": \"minutes\",\<newline>      \"type\": \"task|break|meal\"\<newline>    }\<newline>  ],\<newline>  \"summary\": \"Brief summary of the day plan\"\<newline>}\<newline>\<newline>Requirements:\<newline>- Include ALL closing brackets and braces\<newline>- Start with user'' @ [39] @ lit ''s wake time ('' @
     orText (case p of None \<Rightarrow> None | Some r \<Rightarrow> wake_time r) (lit ''09:00'') @
     lit '')\<newline>- Include breaks every '' @
     orNumber (case p of None \<Rightarrow> None | Some r \<Rightarrow> break_interval_minutes r) (lit ''30'') @
     lit '' minutes\<newline>- Schedule all provided tasks\<newline>- End before sleep time ('' @
     orText (case p of None \<Rightarrow> None | Some r \<Rightarrow> sleep_time r) (lit ''23:00'') @
     lit '')\<newline>- Return ONLY the JSON object, nothing else\<newline>\<newline>Consider the weather, user preferences, task importance, and include appropriate breaks.''"

definition buildPrompt :: "prefs option \<Rightarrow> task list \<Rightarrow> weather option \<Rightarrow> error + ustring" where
  "buildPrompt p tasks w =
     (if tasks = [] then Inl (Error (lit ''No tasks provided for planning''))
      else Inr (promptHead p w @ joinWith [10] (map taskLine tasks) @ promptTail p))"

section \<open>Plan generation\<close>

text \<open>\<^verbatim>\<open>generatePlan\<close>, lines 199 to 324 of \<^verbatim>\<open>src/backend/src/index.ts\<close>, with
  \<^verbatim>\<open>getUserId\<close>, lines 30 to 55.\<close>

text \<open>
  The handler awaits the identity provider, the database and three HTTP services. What
  each of them answers is an input of the model: one field per call, \<open>Throws\<close> where the
  awaited promise rejects. The handler returns the calls it made, in order, and either
  the response or the exception it lets escape to the dispatcher.
\<close>

datatype 'a outcome = Throws ustring | Returns 'a

text \<open>An HTTP answer: its status line, and what reading its body as JSON gives.\<close>

record 'a reply =
  ok :: bool
  status :: jsnumber
  statusText :: ustring
  payload :: "'a outcome"

text \<open>The completion: \<open>None\<close> where \<^verbatim>\<open>choices\<close>, its first entry or the message of that
  entry is missing, else the content of the message.\<close>

record world =
  verifiedSub :: "ustring outcome"
  insertUser :: "unit outcome"
  selectPrefs :: "prefs list outcome"
  selectTasks :: "task list outcome"
  weatherReply :: "weather reply outcome"
  apodReply :: "json reply outcome"
  mistralReply :: "ustring option reply outcome"
  insertPlan :: "unit outcome"

datatype call =
    VerifyToken | InsertUser | SelectPrefs | SelectTasks
  | FetchWeather | FetchApod | FetchCompletion | InsertPlan

datatype body =
    ErrorBody ustring
  | PlanBody json "json option" weather

record response =
  code :: nat
  content :: body

definition json_response :: "body \<Rightarrow> nat \<Rightarrow> response" where
  "json_response b st = \<lparr>code = st, content = b\<rparr>"

definition unknownWeather :: weather where
  "unknownWeather = \<lparr>description = Some (lit ''unknown''), temp = Some (Number (lit ''20''))\<rparr>"

text \<open>The first \<^verbatim>\<open>try\<close> block: the weather of the city of the preferences.\<close>

definition fetchWeather :: "world \<Rightarrow> prefs \<Rightarrow> call list \<times> weather" where
  "fetchWeather w p =
     (if orText (city p) [] \<noteq> [] then
        ([FetchWeather],
         case weatherReply w of
           Throws e \<Rightarrow> unknownWeather
         | Returns r \<Rightarrow>
             if ok r then (case payload r of Throws e \<Rightarrow> unknownWeather | Returns x \<Rightarrow> x)
             else unknownWeather)
      else ([], unknownWeather))"

text \<open>The second \<^verbatim>\<open>try\<close> block: the astronomy picture, \<^verbatim>\<open>null\<close> on any failure.\<close>

definition fetchApod :: "world \<Rightarrow> call list \<times> json option" where
  "fetchApod w =
     ([FetchApod],
      case apodReply w of
        Throws e \<Rightarrow> None
      | Returns r \<Rightarrow>
          if ok r then (case payload r of Throws e \<Rightarrow> None | Returns x \<Rightarrow> Some x) else None)"

text \<open>The third \<^verbatim>\<open>try\<close> block: the completion and its parse; \<open>Inl\<close> carries the message
  of the error the block throws.\<close>

definition fetchPlan :: "world \<Rightarrow> ustring + json" where
  "fetchPlan w =
     (case mistralReply w of
        Throws e \<Rightarrow> Inl e
      | Returns r \<Rightarrow>
          if \<not> ok r then
            Inl (lit ''MistralAI API error: '' @ numberText (status r) @ lit '' '' @ statusText r)
          else
            (case payload r of
               Throws e \<Rightarrow> Inl e
             | Returns None \<Rightarrow> Inl (lit ''Invalid response from MistralAI'')
             | Returns (Some rawContent) \<Rightarrow>
                 (case parseAIResponse rawContent of
                    Inl parseErr \<Rightarrow> Inl (lit ''Failed to parse AI response as JSON'')
                  | Inr v \<Rightarrow> Inr v)))"

text \<open>The user row is inserted first; a failure is logged and ignored.\<close>

definition ensureUser :: "world \<Rightarrow> call list \<times> bool" where
  "ensureUser w = ([InsertUser], case insertUser w of Throws e \<Rightarrow> False | Returns u \<Rightarrow> True)"

text \<open>The last \<^verbatim>\<open>try\<close> block: the plan is written; a failure is logged and ignored. The
  boolean tells whether the row was written.\<close>

definition persistPlan :: "world \<Rightarrow> json \<Rightarrow> call list \<times> bool" where
  "persistPlan w v = ([InsertPlan], case insertPlan w of Throws e \<Rightarrow> False | Returns u \<Rightarrow> True)"

text \<open>The two queries are started together; where both fail, the model lets the error of
  the first escape.\<close>

definition generatePlan :: "world \<Rightarrow> call list \<times> (ustring + response)" where
  "generatePlan w =
     (case verifiedSub w of
        Throws e \<Rightarrow> ([VerifyToken], Inl (lit ''Authentication failed: '' @ e))
      | Returns userId \<Rightarrow>
          let (tu, userOk) = ensureUser w;
              t0 = [VerifyToken] @ tu @ [SelectPrefs, SelectTasks] in
          (case selectPrefs w of
             Throws e \<Rightarrow> (t0, Inl e)
           | Returns prefsRows \<Rightarrow>
               (case selectTasks w of
                  Throws e \<Rightarrow> (t0, Inl e)
                | Returns tasks \<Rightarrow>
                    (case prefsRows of
                       [] \<Rightarrow>
                         (t0, Inr (json_response (ErrorBody
                            (lit ''User preferences not found. Please set up your preferences first.'')) 400))
                     | p # _ \<Rightarrow>
                         if tasks = [] then
                           (t0, Inr (json_response (ErrorBody
                              (lit ''No tasks found for today. Please add some tasks first.'')) 400))
                         else
                           let (t1, weather) = fetchWeather w p;
                               (t2, apod) = fetchApod w in
                           (case buildPrompt (Some p) tasks (Some weather) of
                              Inl (Error e) \<Rightarrow> (t0 @ t1 @ t2, Inl e)
                            | Inr prompt \<Rightarrow>
                                (case fetchPlan w of
                                   Inl e \<Rightarrow>
                                     (t0 @ t1 @ t2 @ [FetchCompletion],
                                      Inr (json_response (ErrorBody
                                         (lit ''Failed to generate plan: '' @ e)) 500))
                                 | Inr v \<Rightarrow>
                                     let (t3, saved) = persistPlan w v in
                                     (t0 @ t1 @ t2 @ [FetchCompletion] @ t3,
                                      Inr (json_response (PlanBody v apod weather) 200))))))))"

section \<open>The schema the prompt asks for\<close>

text \<open>The structure the prompt of \<^verbatim>\<open>buildPrompt\<close> prescribes: an object with a
  \<^verbatim>\<open>schedule\<close> array of items and a \<^verbatim>\<open>summary\<close> string; an item has the strings
  \<^verbatim>\<open>time\<close>, \<^verbatim>\<open>activity\<close> and \<^verbatim>\<open>type\<close> and a \<^verbatim>\<open>duration\<close>, a string or a number.\<close>

definition isScheduleItem :: "json \<Rightarrow> bool" where
  "isScheduleItem v =
     (case v of
        JObject kvs \<Rightarrow>
          (case (map_of kvs (lit ''time''), map_of kvs (lit ''activity''),
                 map_of kvs (lit ''duration''), map_of kvs (lit ''type'')) of
             (Some (JStr t), Some (JStr a), Some (JStr d), Some (JStr y)) \<Rightarrow> True
           | (Some (JStr t), Some (JStr a), Some (JNum d), Some (JStr y)) \<Rightarrow> True
           | _ \<Rightarrow> False)
      | _ \<Rightarrow> False)"

definition planSchema :: "json \<Rightarrow> bool" where
  "planSchema v =
     (case v of
        JObject kvs \<Rightarrow>
          (case (map_of kvs (lit ''schedule''), map_of kvs (lit ''summary'')) of
             (Some (JArray items), Some (JStr s)) \<Rightarrow> list_all isScheduleItem items
           | _ \<Rightarrow> False)
      | _ \<Rightarrow> False)"

section \<open>Sample data\<close>

text \<open>A preferences row, a task, a completion and two worlds on which the handler is run.\<close>

definition somePrefs :: prefs where
  "somePrefs = \<lparr>city = Some (lit ''Pune''), wake_time = Some (lit ''07:00''), sleep_time = None,
                break_interval_minutes = Some (Number (lit ''45'')), row_json = lit ''{\"city\":\"Pune\"}''\<rparr>"

definition idleWorld :: world where
  "idleWorld = \<lparr>verifiedSub = Returns (lit ''user_1''), insertUser = Returns (),
                selectPrefs = Returns [somePrefs], selectTasks = Returns [],
                weatherReply = Throws (lit ''unreachable''), apodReply = Throws (lit ''unreachable''),
                mistralReply = Throws (lit ''unreachable''), insertPlan = Returns ()\<rparr>"

definition someTask :: task where
  "someTask = \<lparr>title = Some (lit ''Write''), duration_minutes = Some (Number (lit ''45'')),
                importance = Some (lit ''high'')\<rparr>"

definition someReply :: "ustring option reply" where
  "someReply = \<lparr>ok = True, status = Number (lit ''200''), statusText = lit ''OK'',
                payload = Returns (Some (lit ''{\"schedule\": [], \"summary\": \"ok\"}''))\<rparr>"

definition failingStoreWorld :: world where
  "failingStoreWorld = \<lparr>verifiedSub = Returns (lit ''user_1''), insertUser = Returns (),
                selectPrefs = Returns [somePrefs], selectTasks = Returns [someTask],
                weatherReply = Throws (lit ''unreachable''), apodReply = Throws (lit ''unreachable''),
                mistralReply = Returns someReply, insertPlan = Throws (lit ''connection lost'')\<rparr>"

section \<open>Evaluation on concrete texts\<close>

lemmas json_eval = JSON_parse_def lit_def idle_step_def emit_def is_json_ws_def is_digit_def hexval_def

lemmas scrape_eval = matchAll_def fieldMatchAt_def orDefault_def

lemmas clean_eval = cleanedContent_def trim_def is_space_def cleanFences_def stripFenceJson_def
  stripFence_def extractBraces_def braceSpan_def repairTruncated_def scheduleMatch_def
  scheduleArrayAt_def closeSchedule_def countChar_def fallbackSummary_def ascii_lower_def

section \<open>Substrings\<close>

lemma sublist_trans: "sublist xs ys \<Longrightarrow> sublist ys zs \<Longrightarrow> sublist xs zs"
  by (rule sublist_order.order_trans)

lemma includes_str_sublist: "includes_str p s \<longleftrightarrow> sublist p s"
  by (induction s) (auto simp: sublist_Cons_right)

lemma prefix_rev_dropWhile_rev: "prefix (rev (dropWhile P (rev t))) t"
  by (metis prefix_def rev_append rev_rev_ident takeWhile_dropWhile_id)

lemma sublist_trim: "sublist (trim s) s"
proof -
  have "sublist (trim s) (dropWhile is_space s)"
    unfolding trim_def by (rule prefix_imp_sublist) (rule prefix_rev_dropWhile_rev)
  moreover have "sublist (dropWhile is_space s) s"
    by (rule suffix_imp_sublist) (rule suffix_dropWhile)
  ultimately show ?thesis by (rule sublist_trans)
qed

lemma sublist_dropWhile_drop: "sublist (dropWhile P (drop n s)) s"
  by (meson sublist_trans suffix_imp_sublist suffix_dropWhile sublist_drop)

lemma sublist_stripFenceJson: "sublist (stripFenceJson s) s"
  by (simp add: stripFenceJson_def sublist_dropWhile_drop)

lemma sublist_stripFence: "sublist (stripFence s) s"
  by (simp add: stripFence_def sublist_dropWhile_drop)

lemma prefix_stripFenceEnd: "prefix (stripFenceEnd s) s"
  by (induction s) auto

lemma sublist_cleanFences: "sublist (cleanFences s) s"
  unfolding cleanFences_def
  by (meson sublist_trans prefix_imp_sublist prefix_stripFenceEnd sublist_stripFence
      sublist_stripFenceJson)

lemma sublist_braceSpan:
  assumes "braceSpan s = Some m"
  shows "sublist m s"
proof -
  from assms obtain b rest where d: "dropWhile (\<lambda>c. c \<noteq> 123) s = b # rest"
    and m: "m = b # rev (dropWhile (\<lambda>c. c \<noteq> 125) (rev rest))"
    by (auto simp: braceSpan_def split: list.splits if_splits)
  have "prefix m (b # rest)" using m prefix_rev_dropWhile_rev by simp
  then have "sublist m (b # rest)" by (rule prefix_imp_sublist)
  moreover have "sublist (b # rest) s" using d by (metis suffix_dropWhile suffix_imp_sublist)
  ultimately show ?thesis by (rule sublist_trans)
qed

lemma sublist_extractBraces: "sublist (extractBraces s) s"
  by (auto simp: extractBraces_def sublist_braceSpan split: option.splits)

lemma sublist_snoc:
  assumes "sublist p (s @ [x])" and "p \<noteq> []" and "last p \<noteq> x"
  shows "sublist p s"
proof -
  from assms(1) obtain ps ss where e: "s @ [x] = ps @ p @ ss" by (auto simp: sublist_def)
  show ?thesis
  proof (cases ss rule: rev_cases)
    case Nil
    from e have "last (s @ [x]) = last (ps @ p @ ss)" by simp
    with Nil assms(2) have "x = last p" by simp
    with assms(3) show ?thesis by simp
  next
    case (snoc ss' y)
    from e have "butlast (s @ [x]) = butlast (ps @ p @ ss)" by simp
    with snoc have "s = ps @ p @ ss'" by (simp add: butlast_append)
    then show ?thesis by (auto simp: sublist_def)
  qed
qed

lemma sublist_strip_left:
  assumes "sublist p (a @ s)" and "p \<noteq> []" and "hd p \<notin> set a"
  shows "sublist p s"
  using assms
proof (induction a)
  case Nil
  then show ?case by simp
next
  case (Cons x a)
  from Cons.prems have "\<not> prefix p (x # a @ s)" by (cases p) auto
  with Cons show ?case by (simp add: sublist_Cons_right)
qed

lemma sublist_strip_right:
  assumes "sublist p (s @ b)" and "p \<noteq> []" and "last p \<notin> set b"
  shows "sublist p s"
  using assms
proof (induction b rule: rev_induct)
  case Nil
  then show ?case by simp
next
  case (snoc x b)
  from snoc.prems(1) have a: "sublist p ((s @ b) @ [x])" by (simp only: append_assoc)
  from snoc.prems(3) have l: "last p \<noteq> x" "last p \<notin> set b" by simp_all
  from a snoc.prems(2) l(1) have "sublist p (s @ b)" by (rule sublist_snoc)
  then show ?case using snoc.prems(2) l(2) by (rule snoc.IH)
qed

lemma json_ws_not_quote: "list_all is_json_ws ws \<Longrightarrow> 34 \<notin> set ws"
  by (induction ws) (auto simp: is_json_ws_def)

text \<open>Every step before the repair keeps a contiguous part of the text, so a text without
  \<^verbatim>\<open>"schedule"\<close> is never repaired and stays without it.\<close>

lemma cleaned_without_schedule:
  assumes "\<not> includes_str (lit ''\"schedule\"'') raw"
  shows "\<not> includes_str (lit ''\"schedule\"'') (cleanedContent raw)"
proof -
  let ?c = "trim (extractBraces (cleanFences (trim raw)))"
  have "sublist ?c raw"
    by (meson sublist_trans sublist_trim sublist_extractBraces sublist_cleanFences)
  with assms have n: "\<not> includes_str (lit ''\"schedule\"'') ?c"
    unfolding includes_str_sublist using sublist_trans by blast
  then have "repairTruncated ?c = ?c" by (simp add: repairTruncated_def)
  with n show ?thesis by (simp add: cleanedContent_def)
qed

section \<open>The parser, one code unit at a time\<close>

subsection \<open>Runs\<close>

lemma run_append:
  "run st (a @ b) = (case run st a of None \<Rightarrow> None | Some st' \<Rightarrow> run st' b)"
  by (induction a arbitrary: st) (auto split: option.splits)

lemma run_json_ws:
  "list_all is_json_ws ws \<Longrightarrow> run (LIdle, p) ws = Some (LIdle, p)"
  by (induction ws) (auto simp: idle_step_def)

lemma JSON_parse_leading_ws:
  "list_all is_json_ws ws \<Longrightarrow> JSON_parse (ws @ s) = JSON_parse s"
  by (simp add: JSON_parse_def run_append run_json_ws)

lemma JSON_parse_Some:
  "JSON_parse t = Some v \<Longrightarrow> \<exists>st. run (LIdle, (EValue, [])) t = Some st \<and> finish st = Some v"
  by (cases "run (LIdle, (EValue, [])) t") (auto simp: JSON_parse_def)

lemma run_snoc:
  "run st (a @ [x]) = Some s1 \<Longrightarrow> \<exists>s. run st a = Some s \<and> step x s = Some s1"
proof (induction a arbitrary: st)
  case Nil
  then show ?case by (cases "step x st") auto
next
  case (Cons c a)
  then show ?case by (cases "step c st") simp_all
qed

lemma run_snoc2:
  "run st (a @ [x, y]) = Some s2 \<Longrightarrow>
   \<exists>s s1. run st a = Some s \<and> step x s = Some s1 \<and> step y s1 = Some s2"
proof (induction a arbitrary: st)
  case Nil
  then show ?case by (cases "step x st") (auto split: option.splits)
next
  case (Cons c a)
  then show ?case by (cases "step c st") simp_all
qed

subsection \<open>Tokens that complete the top-level value\<close>

lemma emit_Some: "emit t p = Some st \<longleftrightarrow> (\<exists>p'. feed t p = Some p' \<and> st = (LIdle, p'))"
  by (auto simp: emit_def)

lemma result_Some: "result p = Some v \<longleftrightarrow> p = (EDone v, [])"
  by (cases p rule: result.cases) auto

lemma deliver_Done: "deliver v st = Some (EDone x, st') \<longleftrightarrow> st = [] \<and> x = v \<and> st' = []"
  by (cases "(v, st)" rule: deliver.cases) auto

lemma close_arr_Done:
  "close_arr st = Some (EDone x, st') \<longleftrightarrow> (\<exists>xs. st = [InArr xs] \<and> x = JArray xs \<and> st' = [])"
  by (cases st rule: close_arr.cases) (auto simp: deliver_Done)

lemma close_obj_Done:
  "close_obj st = Some (EDone x, st') \<longleftrightarrow> (\<exists>kvs. st = [InObj kvs] \<and> x = JObject kvs \<and> st' = [])"
  by (cases st rule: close_obj.cases) (auto simp: deliver_Done)

lemma open_value_Done:
  "open_value t st = Some (EDone x, st') \<longleftrightarrow> t = Atom x \<and> st = [] \<and> st' = []"
  by (cases "(t, st)" rule: open_value.cases) (auto simp: deliver_Done)

lemma open_key_Done: "open_key t st \<noteq> Some (EDone x, st')"
  by (cases "(t, st)" rule: open_key.cases) auto

lemma separator_Done:
  "separator t st = Some (EDone x, st') \<longleftrightarrow>
     (t = RBrack \<and> (\<exists>xs. st = [InArr xs] \<and> x = JArray xs \<and> st' = [])) \<or>
     (t = RBrace \<and> (\<exists>kvs. st = [InObj kvs] \<and> x = JObject kvs \<and> st' = []))"
  by (cases "(t, st)" rule: separator.cases) (auto simp: close_arr_Done close_obj_Done)

text \<open>How a token completes the top-level value.\<close>

lemma feed_Done:
  "feed t (e, st) = Some (EDone x, st') \<longleftrightarrow>
     st' = [] \<and>
     ((t = Atom x \<and> st = [] \<and> (e = EValue \<or> e = EValueOrEnd)) \<or>
      (t = RBrack \<and> (\<exists>xs. st = [InArr xs] \<and> x = JArray xs) \<and> (e = EValueOrEnd \<or> e = ESep)) \<or>
      (t = RBrace \<and> (\<exists>kvs. st = [InObj kvs] \<and> x = JObject kvs) \<and> (e = EKeyOrEnd \<or> e = ESep)))"
  by (cases e)
     (auto simp: open_value_Done open_key_Done separator_Done close_arr_Done close_obj_Done)

lemma literal_letter:
  "n < length (literal_text w) \<Longrightarrow> 97 \<le> literal_text w ! n \<and> literal_text w ! n \<le> 117"
proof -
  assume "n < length (literal_text w)"
  then have "literal_text w ! n \<in> set (literal_text w)" by (rule nth_mem)
  then show ?thesis by (cases w) auto
qed

lemma literal_value_not_object [simp]: "literal_value w \<noteq> JObject kvs"
  by (cases w) auto

lemma finish_LNum_not_object: "finish (LNum ph lx, p) \<noteq> Some (JObject kvs)"
proof (cases "feed (Atom (JNum lx)) p")
  case None
  then show ?thesis by simp
next
  case (Some p')
  obtain e stk where "p = (e, stk)" by (cases p)
  with Some have "result p' \<noteq> Some (JObject kvs)"
    by (cases p') (auto simp: result_Some feed_Done)
  with Some show ?thesis by simp
qed

subsection \<open>The last code unit of an object text\<close>

text \<open>A state that finishes with an object was
  reached by a closing brace, or by white space from a state that finishes with it.\<close>

lemma idle_step_finish_object:
  assumes "idle_step c p = Some st" and "finish st = Some (JObject kvs)"
  shows "c = 125 \<or> (is_json_ws c \<and> result p = Some (JObject kvs))"
  using assms finish_LNum_not_object
  by (cases p)
     (auto simp: idle_step_def emit_Some result_Some feed_Done simp del: finish.simps(2)
           split: if_splits)

lemma step_finish_object:
  assumes "step c s = Some st" and "finish st = Some (JObject kvs)"
  shows "c = 125 \<or> (is_json_ws c \<and> finish s = Some (JObject kvs))"
proof -
  obtain l p where Pair: "s = (l, p)" by (cases s)
  obtain e stk where p: "p = (e, stk)" by (cases p)
  show ?thesis
  proof (cases l)
    case LIdle
    with Pair assms idle_step_finish_object show ?thesis by auto
  next
    case (LStr acc)
    with Pair p assms show ?thesis
      by (auto simp: emit_Some result_Some feed_Done split: if_splits)
  next
    case (LEsc acc)
    with Pair assms show ?thesis by (auto split: if_splits)
  next
    case (LUni acc n v)
    with Pair assms show ?thesis by (auto split: if_splits option.splits)
  next
    case (LNum ph lx)
    show ?thesis
    proof (cases "num_cont ph c")
      case None
      with LNum Pair assms obtain p' where f: "num_final ph" "feed (Atom (JNum lx)) p = Some p'"
        and i: "idle_step c p' = Some st"
        by (auto split: if_splits option.splits)
      from idle_step_finish_object [OF i assms(2)]
      have "c = 125 \<or> result p' = Some (JObject kvs)" by blast
      moreover have "result p' \<noteq> Some (JObject kvs)"
        using f(2) p by (cases p') (auto simp: result_Some feed_Done)
      ultimately show ?thesis by blast
    next
      case (Some ph')
      with LNum Pair assms have "finish (LNum ph' (lx @ [c]), p) = Some (JObject kvs)"
        by auto
      with finish_LNum_not_object show ?thesis by blast
    qed
  next
    case (LLit w n)
    with Pair p assms show ?thesis
      by (auto simp: emit_Some result_Some feed_Done split: if_splits)
  qed
qed

subsection \<open>A closing bracket, then a closing brace\<close>

text \<open>When a closing bracket and a closing brace complete an object, the bracket closed the
  array that is the value of the last member of that object.\<close>

lemma feed_RBrack_shape:
  "feed RBrack p = Some p1 \<Longrightarrow> fst p1 = ESep \<or> (\<exists>v. p1 = (EDone v, []))"
proof -
  have d: "deliver v st = Some q \<Longrightarrow> fst q = ESep \<or> (\<exists>v. q = (EDone v, []))" for v st q
    by (cases "(v, st)" rule: deliver.cases) auto
  have c: "close_arr st = Some q \<Longrightarrow> fst q = ESep \<or> (\<exists>v. q = (EDone v, []))" for st q
    by (cases st rule: close_arr.cases) (auto dest: d)
  assume "feed RBrack p = Some p1"
  then show ?thesis
    by (cases "(RBrack, p)" rule: feed.cases) (auto dest: c elim: open_key.elims)
qed

lemma bracket_brace_tokens:
  assumes "feed RBrack p = Some p1" and "feed RBrace p1 = Some p2"
    and "result p2 = Some (JObject kvs)"
  shows "p1 = (ESep, [InObj kvs])"
proof -
  obtain e1 st1 where p1: "p1 = (e1, st1)" by (cases p1)
  from assms(3) have "p2 = (EDone (JObject kvs), [])" by (simp add: result_Some)
  with assms(2) p1 have "st1 = [InObj kvs] \<and> (e1 = EKeyOrEnd \<or> e1 = ESep)"
    by (auto simp: feed_Done)
  moreover from feed_RBrack_shape [OF assms(1)] p1 have "e1 = ESep \<or> (\<exists>v. e1 = EDone v)" by auto
  ultimately show ?thesis using p1 by auto
qed

lemma bracket_brace_object:
  assumes "step 93 s = Some s1" and "step 125 s1 = Some s2"
    and "finish s2 = Some (JObject kvs)"
  shows "s1 = (LIdle, (ESep, [InObj kvs]))"
proof -
  obtain l p where s: "s = (l, p)" by (cases s)
  have idle: "s1 = (LIdle, (ESep, [InObj kvs]))"
    if "feed RBrack q = Some p1" and "s1 = (LIdle, p1)" for q p1
  proof -
    from assms(2) that(2) obtain p2 where "feed RBrace p1 = Some p2" and s2: "s2 = (LIdle, p2)"
      by (auto simp: idle_step_def is_json_ws_def emit_Some)
    moreover from assms(3) s2 have "result p2 = Some (JObject kvs)" by simp
    ultimately show ?thesis using bracket_brace_tokens that by blast
  qed
  show ?thesis
  proof (cases l)
    case LIdle
    with s assms(1) obtain p1 where "feed RBrack p = Some p1" "s1 = (LIdle, p1)"
      by (auto simp: idle_step_def is_json_ws_def emit_Some)
    then show ?thesis by (rule idle)
  next
    case (LStr acc)
    with s assms show ?thesis by auto
  next
    case (LEsc acc)
    with s assms show ?thesis by auto
  next
    case (LUni acc n v)
    with s assms show ?thesis by (auto simp: hexval_def)
  next
    case (LNum ph lx)
    have "num_cont ph 93 = None" by (cases ph) (auto simp: is_digit_def)
    with LNum s assms(1) obtain p' p1 where "feed RBrack p' = Some p1" "s1 = (LIdle, p1)"
      by (auto simp: idle_step_def is_json_ws_def emit_Some split: if_splits option.splits)
    then show ?thesis by (rule idle)
  next
    case (LLit w n)
    with s assms(1) literal_letter [of n w] show ?thesis by (auto split: if_splits)
  qed
qed

subsection \<open>An object text ends with a closing brace\<close>

lemma object_text_last:
  assumes "run (LIdle, (EValue, [])) t = Some st" and "finish st = Some (JObject kvs)"
  shows "\<exists>body ws st'. t = body @ 125 # ws \<and> list_all is_json_ws ws \<and>
           run (LIdle, (EValue, [])) (body @ [125]) = Some st' \<and> finish st' = Some (JObject kvs)"
  using assms
proof (induction t arbitrary: st rule: rev_induct)
  case Nil
  then show ?case by auto
next
  case (snoc c t)
  from snoc.prems(1) obtain s where r: "run (LIdle, (EValue, [])) t = Some s"
    and s: "step c s = Some st"
    by (blast dest: run_snoc)
  from step_finish_object [OF s snoc.prems(2)]
  show ?case
  proof
    assume "c = 125"
    with snoc.prems show ?thesis by (intro exI [of _ t] exI [of _ "[]"] exI [of _ st]) simp
  next
    assume w: "is_json_ws c \<and> finish s = Some (JObject kvs)"
    with snoc.IH [OF r] obtain body ws st' where "t = body @ 125 # ws" "list_all is_json_ws ws"
      "run (LIdle, (EValue, [])) (body @ [125]) = Some st'" "finish st' = Some (JObject kvs)"
      by blast
    with w show ?thesis
      by (intro exI [of _ body] exI [of _ "ws @ [c]"] exI [of _ st']) simp
  qed
qed

subsection \<open>An object text starts with an opening brace\<close>

lemma deliver_array_bottom:
  "array_bottom st \<Longrightarrow> deliver v st = Some p \<Longrightarrow> no_object_p p"
  by (cases "(v, st)" rule: deliver.cases) (auto simp: array_bottom_def split: if_splits)

lemma close_arr_no_object:
  "array_bottom st \<Longrightarrow> close_arr st = Some p \<Longrightarrow> no_object_p p"
proof (cases st rule: close_arr.cases)
  case (1 xs st')
  assume a: "array_bottom st" "close_arr st = Some p"
  show ?thesis
  proof (cases st')
    case Nil
    with 1 a show ?thesis by auto
  next
    case (Cons f fs)
    with 1 a have "array_bottom st'" by (auto simp: array_bottom_def)
    with 1 a show ?thesis by (auto dest: deliver_array_bottom)
  qed
qed auto

lemma close_obj_no_object:
  "array_bottom st \<Longrightarrow> close_obj st = Some p \<Longrightarrow> no_object_p p"
proof (cases st rule: close_obj.cases)
  case (1 kvs st')
  assume a: "array_bottom st" "close_obj st = Some p"
  with 1 have "array_bottom st'" by (cases st') (auto simp: array_bottom_def)
  with 1 a show ?thesis by (auto dest: deliver_array_bottom)
qed auto

lemma array_bottom_Cons: "array_bottom st \<Longrightarrow> array_bottom (f # st)"
  by (auto simp: array_bottom_def)

lemma open_value_no_object:
  "array_bottom st \<Longrightarrow> open_value t st = Some p \<Longrightarrow> no_object_p p"
  by (cases "(t, st)" rule: open_value.cases)
     (auto simp: array_bottom_Cons dest: deliver_array_bottom)

lemma array_bottom_replace: "array_bottom (f # g # st) \<Longrightarrow> array_bottom (h # g # st)"
  by (auto simp: array_bottom_def)

lemma open_key_no_object:
  "array_bottom st \<Longrightarrow> open_key t st = Some p \<Longrightarrow> no_object_p p"
proof (cases "(t, st)" rule: open_key.cases)
  case (1 k kvs st')
  assume a: "array_bottom st" "open_key t st = Some p"
  with 1 have "st' \<noteq> []" by (auto simp: array_bottom_def)
  then obtain g gs where "st' = g # gs" by (cases st') auto
  with 1 a show ?thesis by (auto intro: array_bottom_replace)
qed auto

lemma separator_no_object:
  "array_bottom st \<Longrightarrow> separator t st = Some p \<Longrightarrow> no_object_p p"
  by (cases "(t, st)" rule: separator.cases)
     (auto dest: close_arr_no_object close_obj_no_object)

lemma no_object_p_cases:
  "no_object_p (e, st) \<Longrightarrow> (st = [] \<and> (\<exists>v. e = EDone v \<and> \<not> is_object v)) \<or> array_bottom st"
  by (cases "(e, st)" rule: no_object_p.cases) (auto simp: array_bottom_def)

lemma feed_no_object:
  assumes "no_object_p p" and "feed t p = Some p'"
  shows "no_object_p p'"
proof -
  obtain e st where p: "p = (e, st)" by (cases p)
  from assms(1) p no_object_p_cases
  have "(st = [] \<and> (\<exists>v. e = EDone v)) \<or> array_bottom st" by blast
  then show ?thesis
  proof
    assume "st = [] \<and> (\<exists>v. e = EDone v)"
    with assms(2) p show ?thesis by auto
  next
    assume a: "array_bottom st"
    with assms(2) p show ?thesis
      by (cases e)
         (auto split: if_splits
               dest: open_value_no_object open_key_no_object separator_no_object
                     close_arr_no_object close_obj_no_object)
  qed
qed

lemma literal_value_no_object [simp]: "\<not> is_object (literal_value w)"
  by (cases w) auto

lemma idle_step_no_object:
  assumes "no_object_p p" and "idle_step c p = Some s'"
  shows "no_object s'"
  using assms
  by (auto simp: idle_step_def emit_Some no_object_def split: if_splits dest: feed_no_object)

lemma step_no_object:
  assumes "no_object s" and "step c s = Some s'"
  shows "no_object s'"
proof -
  obtain l p where s: "s = (l, p)" by (cases s)
  from assms(1) s consider (inner) "no_object_p p" | (atom) "p = (EValue, [])" "l \<noteq> LIdle"
    by (auto simp: no_object_def)
  then show ?thesis
  proof cases
    case inner
    show ?thesis
    proof (cases l)
      case LIdle
      with s assms(2) inner show ?thesis by (auto dest: idle_step_no_object)
    next
      case (LNum ph lx)
      show ?thesis
      proof (cases "num_cont ph c")
        case None
        with LNum s assms(2) obtain p' where "feed (Atom (JNum lx)) p = Some p'"
          and i: "idle_step c p' = Some s'"
          by (auto split: option.splits if_splits)
        with inner have "no_object_p p'" by (blast dest: feed_no_object)
        then show ?thesis using i by (rule idle_step_no_object)
      next
        case (Some ph')
        with LNum s assms(2) inner show ?thesis by (auto simp: no_object_def)
      qed
    qed (use s assms(2) inner in
          \<open>auto simp: no_object_def emit_Some split: if_splits option.splits dest: feed_no_object\<close>)
  next
    case atom
    show ?thesis
    proof (cases l)
      case LIdle
      with atom show ?thesis by simp
    next
      case (LNum ph lx)
      show ?thesis
      proof (cases "num_cont ph c")
        case None
        with LNum s assms(2) atom have i: "idle_step c (EDone (JNum lx), []) = Some s'"
          by (auto split: option.splits if_splits)
        have "no_object_p (EDone (JNum lx), [])" by simp
        then show ?thesis using i by (rule idle_step_no_object)
      next
        case (Some ph')
        with LNum s assms(2) atom show ?thesis by (auto simp: no_object_def)
      qed
    qed (use s assms(2) atom in
          \<open>auto simp: no_object_def emit_Some split: if_splits option.splits\<close>)
  qed
qed

lemma run_no_object: "no_object s \<Longrightarrow> run s t = Some s' \<Longrightarrow> no_object s'"
proof (induction t arbitrary: s)
  case Nil
  then show ?case by simp
next
  case (Cons c t)
  then show ?case by (cases "step c s") (auto dest: step_no_object)
qed

lemma finish_no_object:
  assumes "no_object s" and "finish s = Some v"
  shows "\<not> is_object v"
proof -
  obtain l e st where s: "s = (l, (e, st))" by (cases s) auto
  show ?thesis
  proof (cases l)
    case LIdle
    with s assms show ?thesis by (auto simp: no_object_def result_Some)
  next
    case (LNum ph lx)
    with s assms finish_LNum_not_object [of ph lx "(e, st)"] show ?thesis
      by (cases v) (auto simp del: finish.simps)
  qed (use s assms in auto)
qed

lemma first_unit_no_object:
  assumes "idle_step c (EValue, []) = Some s" and "\<not> is_json_ws c" and "c \<noteq> 123"
  shows "no_object s"
  using assms
  by (auto simp: idle_step_def emit_Some no_object_def array_bottom_def split: if_splits)

lemma object_text_first:
  assumes "JSON_parse t = Some (JObject kvs)"
  shows "\<exists>ws rest. t = ws @ 123 # rest \<and> list_all is_json_ws ws"
proof -
  let ?ws = "takeWhile is_json_ws t" and ?r = "dropWhile is_json_ws t"
  have t: "t = ?ws @ ?r" by simp
  have ws: "list_all is_json_ws ?ws" by (simp add: list_all_iff) (meson set_takeWhileD)
  from assms have p: "JSON_parse ?r = Some (JObject kvs)"
    using JSON_parse_leading_ws [OF ws, of ?r] by simp
  show ?thesis
  proof (cases ?r)
    case Nil
    with p show ?thesis by (simp add: JSON_parse_def)
  next
    case (Cons x rest)
    then have nw: "\<not> is_json_ws x" by (metis hd_dropWhile list.distinct(1) list.sel(1))
    have "x = 123"
    proof (rule ccontr)
      assume x: "x \<noteq> 123"
      from p Cons obtain s1 s2 where "idle_step x (EValue, []) = Some s1" "run s1 rest = Some s2"
        "finish s2 = Some (JObject kvs)"
        by (auto simp: JSON_parse_def split: option.splits)
      with first_unit_no_object [OF _ nw x] run_no_object finish_no_object
      have "\<not> is_object (JObject kvs)" by blast
      then show False by simp
    qed
    with t Cons ws show ?thesis by metis
  qed
qed

subsection \<open>The shape of an object text\<close>

lemma object_text_shape:
  assumes "JSON_parse t = Some (JObject kvs)"
  shows "\<exists>ws1 mid ws2. t = ws1 @ (123 # mid @ [125]) @ ws2 \<and>
           list_all is_json_ws ws1 \<and> list_all is_json_ws ws2 \<and>
           JSON_parse (123 # mid @ [125]) = Some (JObject kvs)"
proof -
  from object_text_first [OF assms] obtain ws1 rest where t: "t = ws1 @ 123 # rest"
    and w1: "list_all is_json_ws ws1" by blast
  with assms have "JSON_parse (123 # rest) = Some (JObject kvs)"
    by (simp add: JSON_parse_leading_ws)
  then obtain st where "run (LIdle, (EValue, [])) (123 # rest) = Some st"
    "finish st = Some (JObject kvs)" by (blast dest: JSON_parse_Some)
  from object_text_last [OF this] obtain body ws2 st' where b: "123 # rest = body @ 125 # ws2"
    and w2: "list_all is_json_ws ws2"
    and r: "run (LIdle, (EValue, [])) (body @ [125]) = Some st'" "finish st' = Some (JObject kvs)"
    by blast
  from b obtain mid where m: "body = 123 # mid" by (cases body) auto
  from r have "JSON_parse (body @ [125]) = Some (JObject kvs)" by (simp add: JSON_parse_def)
  with t b m w1 w2 show ?thesis by (intro exI [of _ ws1] exI [of _ mid] exI [of _ ws2]) simp
qed

section \<open>The direct parse\<close>

lemma parseAIResponse_direct: "JSON_parse raw = Some v \<Longrightarrow> parseAIResponse raw = Inr v"
  by (simp add: parseAIResponse_def parseAIResponse_with_def)

text \<open>
  C4. A raw completion that is valid JSON of the schema \<open>{schedule, summary}\<close> is returned as
  the value the direct parse gives: the first stage ends the cascade and no repair is
  applied.
\<close>

theorem valid_plan_returned_unchanged:
  "JSON_parse raw = Some v \<Longrightarrow> planSchema v \<Longrightarrow> parseAIResponse raw = Inr v"
  by (rule parseAIResponse_direct)

theorem valid_plan_returned_unchanged_witness:
  "JSON_parse (lit ''{\"schedule\": [{\"time\": \"09:00\", \"activity\": \"Run\", \"duration\": 30, \"type\": \"task\"}], \"summary\": \"ok\"}'')
     = Some (plan [JObject [(lit ''time'', JStr (lit ''09:00'')), (lit ''activity'', JStr (lit ''Run'')),
                           (lit ''duration'', JNum (lit ''30'')), (lit ''type'', JStr (lit ''task''))]] (lit ''ok''))
   \<and> planSchema (plan [JObject [(lit ''time'', JStr (lit ''09:00'')), (lit ''activity'', JStr (lit ''Run'')),
                           (lit ''duration'', JNum (lit ''30'')), (lit ''type'', JStr (lit ''task''))]] (lit ''ok''))
   \<and> parseAIResponse (lit ''{\"schedule\": [{\"time\": \"09:00\", \"activity\": \"Run\", \"duration\": 30, \"type\": \"task\"}], \"summary\": \"ok\"}'')
     = Inr (plan [JObject [(lit ''time'', JStr (lit ''09:00'')), (lit ''activity'', JStr (lit ''Run'')),
                           (lit ''duration'', JNum (lit ''30'')), (lit ''type'', JStr (lit ''task''))]] (lit ''ok''))"
proof -
  let ?raw = "lit ''{\"schedule\": [{\"time\": \"09:00\", \"activity\": \"Run\", \"duration\": 30, \"type\": \"task\"}], \"summary\": \"ok\"}''"
  let ?v = "plan [JObject [(lit ''time'', JStr (lit ''09:00'')), (lit ''activity'', JStr (lit ''Run'')),
                           (lit ''duration'', JNum (lit ''30'')), (lit ''type'', JStr (lit ''task''))]] (lit ''ok'')"
  have p: "JSON_parse ?raw = Some ?v" by (simp add: json_eval plan_def)
  have s: "planSchema ?v" by (simp add: planSchema_def isScheduleItem_def plan_def lit_def)
  from valid_plan_returned_unchanged [OF p s] p s show ?thesis by blast
qed

text \<open>
  C10. Any raw completion that is valid JSON is returned as the value the direct parse
  gives and no error is raised, whether or not the value has the schema: the value is not
  validated. The witness is the empty object, which does not have the schema.
\<close>

theorem valid_json_returned_without_validation:
  "JSON_parse raw = Some v \<Longrightarrow> parseAIResponse raw = Inr v"
  by (rule parseAIResponse_direct)

theorem valid_json_returned_without_validation_witness:
  "JSON_parse (lit ''{}'') = Some (JObject []) \<and> \<not> planSchema (JObject [])
   \<and> parseAIResponse (lit ''{}'') = Inr (JObject [])"
proof -
  have p: "JSON_parse (lit ''{}'') = Some (JObject [])" by (simp add: json_eval)
  have s: "\<not> planSchema (JObject [])" by (simp add: planSchema_def)
  from valid_json_returned_without_validation [OF p] p s show ?thesis by blast
qed

section \<open>The unrecoverable response\<close>

text \<open>
  C3, as stated: every raw text without \<^verbatim>\<open>"schedule"\<close> raises the error. It does not: a
  text that parses, directly or after the cleaning, is returned. The empty object and the
  empty object after a word of prose are returned as values.
\<close>

theorem no_schedule_counterexample:
  "\<not> includes_str (lit ''\"schedule\"'') (lit ''{}'') \<and> parseAIResponse (lit ''{}'') = Inr (JObject [])
   \<and> \<not> includes_str (lit ''\"schedule\"'') (lit ''ok {}'') \<and> parseAIResponse (lit ''ok {}'') = Inr (JObject [])"
  by (simp add: parseAIResponse_def parseAIResponse_with_def json_eval clean_eval)

text \<open>
  C3, amended: a raw text without \<^verbatim>\<open>"schedule"\<close> on which the direct parse and the parse
  of the cleaned text both fail raises the error, whose message ends with the first 200
  code units of the raw text and three dots.
\<close>

theorem no_schedule_unparseable_raises:
  assumes "JSON_parse raw = None" and "JSON_parse (cleanedContent raw) = None"
    and "\<not> includes_str (lit ''\"schedule\"'') raw"
  shows "parseAIResponse raw =
           Inl (Error (lit ''Cannot extract valid JSON from AI response: '' @ take 200 raw @ lit ''...''))"
  using assms cleaned_without_schedule [OF assms(3)]
  by (simp add: parseAIResponse_def parseAIResponse_with_def unrecoverable_def substring0_def)

theorem no_schedule_unparseable_raises_witness:
  "JSON_parse (lit ''Sorry, I cannot plan today.'') = None
   \<and> JSON_parse (cleanedContent (lit ''Sorry, I cannot plan today.'')) = None
   \<and> \<not> includes_str (lit ''\"schedule\"'') (lit ''Sorry, I cannot plan today.'')
   \<and> parseAIResponse (lit ''Sorry, I cannot plan today.'') =
       Inl (Error (lit ''Cannot extract valid JSON from AI response: Sorry, I cannot plan today....''))"
proof -
  let ?raw = "lit ''Sorry, I cannot plan today.''"
  have a: "JSON_parse ?raw = None" by (simp add: json_eval)
  have b: "JSON_parse (cleanedContent ?raw) = None" by (simp add: json_eval clean_eval)
  have c: "\<not> includes_str (lit ''\"schedule\"'') ?raw" by (simp add: lit_def)
  from no_schedule_unparseable_raises [OF a b c] a b c show ?thesis by (simp add: lit_def)
qed

section \<open>The catch around the field scraping\<close>

text \<open>The body of the inner \<^verbatim>\<open>try\<close> is made of string matching only. It returns on every
  text, so the \<^verbatim>\<open>catch\<close> around it is never entered and the last resort is the scraped
  plan.\<close>

lemma scrapeFields_returns: "\<exists>v. scrapeFields c = Inr v"
  by (simp add: scrapeFields_def)

lemma lastResort_scrapeFields:
  "lastResort scrapeFields c = plan (scrapedItems c) fallbackSummary"
  by (simp add: lastResort_def scrapeFields_def)

section \<open>The field scraping\<close>

lemma parseAIResponse_scrapes:
  assumes "JSON_parse raw = None" and "JSON_parse (cleanedContent raw) = None"
    and "includes_str (lit ''\"schedule\"'') (cleanedContent raw)"
  shows "parseAIResponse raw = Inr (plan (scrapedItems (cleanedContent raw)) fallbackSummary)"
  using assms
  by (simp add: parseAIResponse_def parseAIResponse_with_def lastResort_def scrapeFields_def)

lemma scrapedItems_length:
  "length (scrapedItems c) =
     min (min (length (matchAll (lit ''time'') c)) (length (matchAll (lit ''activity'') c)))
         (min (length (matchAll (lit ''duration'') c)) (length (matchAll (lit ''type'') c)))"
  by (simp add: scrapedItems_def Let_def)

lemma scrapedItems_shape:
  "x \<in> set (scrapedItems c) \<Longrightarrow> \<exists>t a d y. x = scheduleItem t a d y"
  by (auto simp: scrapedItems_def scrapedItem_def Let_def split: if_splits)

text \<open>
  C2, as stated: on every text that contains \<^verbatim>\<open>"schedule"\<close> and on which both parses fail,
  the fields are scraped. They are not where the cleaning removes the occurrence: the
  text is searched for \<^verbatim>\<open>"schedule"\<close> after the brace extraction, and the text below is
  left with \<^verbatim>\<open>{x}\<close> and raises the error.
\<close>

theorem schedule_text_counterexample:
  "includes_str (lit ''\"schedule\"'') (lit ''\"schedule\" {x}'') \<and>
   JSON_parse (lit ''\"schedule\" {x}'') = None \<and>
   JSON_parse (cleanedContent (lit ''\"schedule\" {x}'')) = None \<and>
   parseAIResponse (lit ''\"schedule\" {x}'') =
     Inl (Error (lit ''Cannot extract valid JSON from AI response: \"schedule\" {x}...''))"
proof -
  let ?raw = "lit ''\"schedule\" {x}''"
  have a: "includes_str (lit ''\"schedule\"'') ?raw" by (simp add: lit_def)
  have b: "JSON_parse ?raw = None" by (simp add: json_eval)
  have c: "cleanedContent ?raw = lit ''{x}''" by (simp add: clean_eval lit_def)
  have d: "JSON_parse (lit ''{x}'') = None" by (simp add: json_eval)
  have e: "\<not> includes_str (lit ''\"schedule\"'') (lit ''{x}'')" by (simp add: lit_def)
  have "parseAIResponse ?raw = Inl (unrecoverable ?raw)"
    using b d e by (simp add: parseAIResponse_def parseAIResponse_with_def c)
  then have "parseAIResponse ?raw =
     Inl (Error (lit ''Cannot extract valid JSON from AI response: \"schedule\" {x}...''))"
    by (simp add: unrecoverable_def substring0_def lit_def)
  with a b c d show ?thesis by simp
qed

text \<open>
  C2, amended: on a text whose direct parse and whose parse after cleaning both fail, and
  whose cleaned form contains \<^verbatim>\<open>"schedule"\<close>, the result is a plan with the fixed summary
  whose schedule has as many items as the least of the four counts of matches in the
  cleaned text, each item an object of the four string fields. What the fields hold is
  left open here.
\<close>

theorem field_scraping_count:
  assumes "JSON_parse raw = None" and "JSON_parse (cleanedContent raw) = None"
    and "includes_str (lit ''\"schedule\"'') (cleanedContent raw)"
  shows "\<exists>items.
           parseAIResponse raw =
             Inr (plan items (lit ''Daily schedule generated based on your preferences and tasks.'')) \<and>
           length items =
             min (min (length (matchAll (lit ''time'') (cleanedContent raw)))
                      (length (matchAll (lit ''activity'') (cleanedContent raw))))
                 (min (length (matchAll (lit ''duration'') (cleanedContent raw)))
                      (length (matchAll (lit ''type'') (cleanedContent raw)))) \<and>
           (\<forall>x \<in> set items. \<exists>t a d y. x = scheduleItem t a d y)"
proof -
  let ?items = "scrapedItems (cleanedContent raw)"
  have "parseAIResponse raw =
          Inr (plan ?items (lit ''Daily schedule generated based on your preferences and tasks.''))"
    using parseAIResponse_scrapes [OF assms] by (simp add: fallbackSummary_def)
  moreover have "\<forall>x \<in> set ?items. \<exists>t a d y. x = scheduleItem t a d y"
    using scrapedItems_shape by blast
  ultimately show ?thesis using scrapedItems_length [of "cleanedContent raw"] by blast
qed

theorem field_scraping_count_witness:
  "JSON_parse (lit ''{\"schedule\": [{\"time\": \"9\", \"activity\": \"a [\", \"duration\": \"1\", \"type\": \"x\"}, {\"time\": \"10\", \"activity\": \"b\", \"duration\": \"2\", \"type\": \"y\"}, {\"time\": \"11\"}'') = None \<and>
   JSON_parse (cleanedContent (lit ''{\"schedule\": [{\"time\": \"9\", \"activity\": \"a [\", \"duration\": \"1\", \"type\": \"x\"}, {\"time\": \"10\", \"activity\": \"b\", \"duration\": \"2\", \"type\": \"y\"}, {\"time\": \"11\"}'')) = None \<and>
   includes_str (lit ''\"schedule\"'') (cleanedContent (lit ''{\"schedule\": [{\"time\": \"9\", \"activity\": \"a [\", \"duration\": \"1\", \"type\": \"x\"}, {\"time\": \"10\", \"activity\": \"b\", \"duration\": \"2\", \"type\": \"y\"}, {\"time\": \"11\"}'')) \<and>
   matchAll (lit ''time'') (cleanedContent (lit ''{\"schedule\": [{\"time\": \"9\", \"activity\": \"a [\", \"duration\": \"1\", \"type\": \"x\"}, {\"time\": \"10\", \"activity\": \"b\", \"duration\": \"2\", \"type\": \"y\"}, {\"time\": \"11\"}'')) =
     [lit ''\"time\": \"9\"'', lit ''\"time\": \"10\"'', lit ''\"time\": \"11\"''] \<and>
   matchAll (lit ''activity'') (cleanedContent (lit ''{\"schedule\": [{\"time\": \"9\", \"activity\": \"a [\", \"duration\": \"1\", \"type\": \"x\"}, {\"time\": \"10\", \"activity\": \"b\", \"duration\": \"2\", \"type\": \"y\"}, {\"time\": \"11\"}'')) =
     [lit ''\"activity\": \"a [\"'', lit ''\"activity\": \"b\"''] \<and>
   matchAll (lit ''duration'') (cleanedContent (lit ''{\"schedule\": [{\"time\": \"9\", \"activity\": \"a [\", \"duration\": \"1\", \"type\": \"x\"}, {\"time\": \"10\", \"activity\": \"b\", \"duration\": \"2\", \"type\": \"y\"}, {\"time\": \"11\"}'')) =
     [lit ''\"duration\": \"1\"'', lit ''\"duration\": \"2\"''] \<and>
   matchAll (lit ''type'') (cleanedContent (lit ''{\"schedule\": [{\"time\": \"9\", \"activity\": \"a [\", \"duration\": \"1\", \"type\": \"x\"}, {\"time\": \"10\", \"activity\": \"b\", \"duration\": \"2\", \"type\": \"y\"}, {\"time\": \"11\"}'')) =
     [lit ''\"type\": \"x\"'', lit ''\"type\": \"y\"''] \<and>
   (\<exists>items.
      parseAIResponse (lit ''{\"schedule\": [{\"time\": \"9\", \"activity\": \"a [\", \"duration\": \"1\", \"type\": \"x\"}, {\"time\": \"10\", \"activity\": \"b\", \"duration\": \"2\", \"type\": \"y\"}, {\"time\": \"11\"}'') =
        Inr (plan items (lit ''Daily schedule generated based on your preferences and tasks.'')) \<and>
      length items = 2 \<and> (\<forall>x \<in> set items. \<exists>t a d y. x = scheduleItem t a d y))"
proof -
  let ?raw = "lit ''{\"schedule\": [{\"time\": \"9\", \"activity\": \"a [\", \"duration\": \"1\", \"type\": \"x\"}, {\"time\": \"10\", \"activity\": \"b\", \"duration\": \"2\", \"type\": \"y\"}, {\"time\": \"11\"}''"
  let ?c = "lit ''{\"schedule\": [{\"time\": \"9\", \"activity\": \"a [\", \"duration\": \"1\", \"type\": \"x\"}, {\"time\": \"10\", \"activity\": \"b\", \"duration\": \"2\", \"type\": \"y\"}, {\"time\": \"11\"}]], \"summary\": \"Daily schedule generated based on your preferences and tasks.\"}''"
  have cl: "cleanedContent ?raw = ?c" by (simp add: clean_eval lit_def)
  have a: "JSON_parse ?raw = None" by (simp add: json_eval)
  have b: "JSON_parse (cleanedContent ?raw) = None" unfolding cl by (simp add: json_eval)
  have c: "includes_str (lit ''\"schedule\"'') (cleanedContent ?raw)" unfolding cl by (simp add: lit_def)
  have t: "matchAll (lit ''time'') (cleanedContent ?raw) =
      [lit ''\"time\": \"9\"'', lit ''\"time\": \"10\"'', lit ''\"time\": \"11\"'']"
    unfolding cl by (simp add: scrape_eval lit_def is_space_def)
  have ac: "matchAll (lit ''activity'') (cleanedContent ?raw) =
      [lit ''\"activity\": \"a [\"'', lit ''\"activity\": \"b\"'']"
    unfolding cl by (simp add: scrape_eval lit_def is_space_def)
  have d: "matchAll (lit ''duration'') (cleanedContent ?raw) =
      [lit ''\"duration\": \"1\"'', lit ''\"duration\": \"2\"'']"
    unfolding cl by (simp add: scrape_eval lit_def is_space_def)
  have y: "matchAll (lit ''type'') (cleanedContent ?raw) = [lit ''\"type\": \"x\"'', lit ''\"type\": \"y\"'']"
    unfolding cl by (simp add: scrape_eval lit_def is_space_def)
  from field_scraping_count [OF a b c] obtain items
    where p: "parseAIResponse ?raw =
        Inr (plan items (lit ''Daily schedule generated based on your preferences and tasks.''))"
      and l: "length items =
             min (min (length (matchAll (lit ''time'') (cleanedContent ?raw)))
                      (length (matchAll (lit ''activity'') (cleanedContent ?raw))))
                 (min (length (matchAll (lit ''duration'') (cleanedContent ?raw)))
                      (length (matchAll (lit ''type'') (cleanedContent ?raw))))"
      and sh: "\<forall>x \<in> set items. \<exists>t a d y. x = scheduleItem t a d y"
    by blast
  have "min (min (length (matchAll (lit ''time'') (cleanedContent ?raw)))
                      (length (matchAll (lit ''activity'') (cleanedContent ?raw))))
                 (min (length (matchAll (lit ''duration'') (cleanedContent ?raw)))
                      (length (matchAll (lit ''type'') (cleanedContent ?raw)))) = 2"
    unfolding t ac d y by simp
  with l have "length items = 2" by (rule trans)
  with p sh have "\<exists>items.
      parseAIResponse ?raw =
        Inr (plan items (lit ''Daily schedule generated based on your preferences and tasks.'')) \<and>
      length items = 2 \<and> (\<forall>x \<in> set items. \<exists>t a d y. x = scheduleItem t a d y)"
    by blast
  with a b c t ac d y show ?thesis by (intro conjI)
qed

text \<open>What the capture is: the pattern \<^verbatim>\<open>"([^"]+)"\<close> finds its leftmost match in a text such
  as \<^verbatim>\<open>"time": "09:00"\<close> at the quoted key, so the capture is the name of the field, it is
  never missing, and every scraped item carries the four field names.\<close>

lemma firstQuoted_key:
  assumes "key \<noteq> []" and "34 \<notin> set key"
  shows "firstQuoted (34 # key @ 34 # rest) = Some key"
proof -
  have "takeWhile (\<lambda>x. x \<noteq> 34) (key @ 34 # rest) = key"
    using assms(2) by (induction key) auto
  moreover have "dropWhile (\<lambda>x. x \<noteq> 34) (key @ 34 # rest) = 34 # rest"
    using assms(2) by (induction key) auto
  ultimately show ?thesis using assms(1) by simp
qed

lemma fieldMatchAt_shape:
  "fieldMatchAt key s = Some m \<Longrightarrow> \<exists>rest. m = 34 # key @ 34 # rest"
  by (auto simp: fieldMatchAt_def Let_def split: if_splits list.splits)

lemma matchAllFrom_elements:
  "m \<in> set (matchAllFrom key n s) \<Longrightarrow> \<exists>s'. fieldMatchAt key s' = Some m"
  by (induction key n s rule: matchAllFrom.induct) (auto split: option.splits)

lemma scraped_capture_is_key:
  assumes "m \<in> set (matchAll key s)" and "key \<noteq> []" and "34 \<notin> set key"
  shows "orDefault (firstQuoted m) dflt = key"
proof -
  from assms(1) obtain s' where "fieldMatchAt key s' = Some m"
    unfolding matchAll_def by (blast dest: matchAllFrom_elements)
  then obtain rest where "m = 34 # key @ 34 # rest" by (blast dest: fieldMatchAt_shape)
  then show ?thesis using firstQuoted_key [OF assms(2,3)] assms(2) by (simp add: orDefault_def)
qed

lemma scraped_items_hold_field_names:
  "x \<in> set (scrapedItems c) \<Longrightarrow>
   x = scheduleItem (lit ''time'') (lit ''activity'') (lit ''duration'') (lit ''type'')"
proof -
  assume "x \<in> set (scrapedItems c)"
  then obtain i where i: "i < length (matchAll (lit ''time'') c)" "i < length (matchAll (lit ''activity'') c)"
     "i < length (matchAll (lit ''duration'') c)" "i < length (matchAll (lit ''type'') c)"
     and x: "x = scrapedItem (matchAll (lit ''time'') c ! i) (matchAll (lit ''activity'') c ! i)
                 (matchAll (lit ''duration'') c ! i) (matchAll (lit ''type'') c ! i)"
    by (auto simp: scrapedItems_def Let_def split: if_splits)
  have k: "lit ''time'' \<noteq> []" "34 \<notin> set (lit ''time'')" "lit ''activity'' \<noteq> []" "34 \<notin> set (lit ''activity'')"
     "lit ''duration'' \<noteq> []" "34 \<notin> set (lit ''duration'')" "lit ''type'' \<noteq> []" "34 \<notin> set (lit ''type'')"
    by (simp_all add: lit_def)
  have "orDefault (firstQuoted (matchAll (lit ''time'') c ! i)) (lit ''09:00'') = lit ''time''"
    by (rule scraped_capture_is_key [OF nth_mem [OF i(1)] k(1,2)])
  moreover have "orDefault (firstQuoted (matchAll (lit ''activity'') c ! i)) (lit ''Task'') = lit ''activity''"
    by (rule scraped_capture_is_key [OF nth_mem [OF i(2)] k(3,4)])
  moreover have "orDefault (firstQuoted (matchAll (lit ''duration'') c ! i)) (lit ''30'') = lit ''duration''"
    by (rule scraped_capture_is_key [OF nth_mem [OF i(3)] k(5,6)])
  moreover have "orDefault (firstQuoted (matchAll (lit ''type'') c ! i)) (lit ''task'') = lit ''type''"
    by (rule scraped_capture_is_key [OF nth_mem [OF i(4)] k(7,8)])
  ultimately show ?thesis unfolding x scrapedItem_def by simp
qed

section \<open>The repair of a truncated schedule\<close>

lemma run_fallback_summary:
  "run (LIdle, (ESep, [InObj kvs]))
       (lit '', \"summary\": \"'' @ fallbackSummary @ lit ''\"'' @ [125]) =
     Some (LIdle, (EDone (JObject (AList.update (lit ''summary'') (JStr fallbackSummary) kvs)), []))"
  by (simp add: json_eval fallbackSummary_def)

lemma prefix_stripTrailingComma: "prefix (stripTrailingComma s) s"
  by (induction s) auto

lemma hasScheduleArray_includes:
  "hasScheduleArray s \<Longrightarrow> includes_str (lit ''\"schedule\"'') s"
proof (induction s)
  case Nil
  then show ?case by simp
next
  case (Cons c cs)
  have "prefix (lit ''\"schedule\"'') (lit ''\"schedule\":'')" by (simp add: lit_def)
  then have "scheduleArrayAt (c # cs) \<Longrightarrow> prefix (lit ''\"schedule\"'') (c # cs)"
    unfolding scheduleArrayAt_def using prefix_order.order_trans by blast
  with Cons show ?case by auto
qed

lemma scheduleMatch_suffix: "scheduleMatch c = Some m \<Longrightarrow> suffix m c"
  by (auto simp: scheduleMatch_def split: list.splits if_splits) (metis suffix_dropWhile)

lemma scheduleMatch_includes:
  assumes "scheduleMatch c = Some m"
  shows "includes_str (lit ''\"schedule\"'') c"
proof -
  obtain b rest where m: "m = b # rest" and h: "hasScheduleArray rest"
  proof (cases "dropWhile (\<lambda>c. c \<noteq> 123) c")
    case Nil
    with assms show ?thesis by (simp add: scheduleMatch_def)
  next
    case (Cons b rest)
    with assms have "m = b # rest \<and> hasScheduleArray rest"
      by (simp add: scheduleMatch_def split: if_splits)
    then show ?thesis using that by blast
  qed
  from h have "sublist (lit ''\"schedule\"'') rest"
    by (simp add: hasScheduleArray_includes flip: includes_str_sublist)
  moreover have "sublist rest m" using m by (simp add: suffix_imp_sublist suffix_ConsI)
  moreover have "sublist m c" using scheduleMatch_suffix [OF assms] by (rule suffix_imp_sublist)
  ultimately show ?thesis unfolding includes_str_sublist by (meson sublist_trans)
qed

text \<open>The repaired text of a match with one open bracket and one open brace.\<close>

lemma closeSchedule_one_open:
  assumes "\<not> includes_str (lit ''\"summary\"'') m"
    and "countChar 91 m = countChar 93 m + 1" and "countChar 123 m = countChar 125 m + 1"
  shows "closeSchedule m =
           stripTrailingComma m @ [93] @ lit '', \"summary\": \"'' @ fallbackSummary @ lit ''\"'' @ [125]"
proof -
  let ?p = "lit ''\"summary\"''"
  have "sublist (stripTrailingComma m) m"
    by (rule prefix_imp_sublist) (rule prefix_stripTrailingComma)
  with assms(1) have n: "\<not> sublist ?p (stripTrailingComma m)"
    unfolding includes_str_sublist using sublist_trans by blast
  have p: "?p \<noteq> []" "last ?p \<noteq> 93" by (simp_all add: lit_def)
  have "\<not> sublist ?p (stripTrailingComma m @ [93])"
  proof
    assume "sublist ?p (stripTrailingComma m @ [93])"
    then have "sublist ?p (stripTrailingComma m)" using p by (rule sublist_snoc)
    with n show False by contradiction
  qed
  then have "\<not> includes_str ?p (stripTrailingComma m @ [93])"
    by (simp add: includes_str_sublist)
  then show ?thesis using assms(2,3) by (simp add: closeSchedule_def Let_def)
qed

text \<open>
  C1, as stated: every cleaned text with a \<^verbatim>\<open>schedule\<close> key and no \<^verbatim>\<open>summary\<close> key that is cut
  after complete items is repaired into a parseable object. It is not: the brackets and
  braces are counted over the whole text, also inside strings, and the repair is entered
  only where \<^verbatim>\<open>"schedule":\<close> is followed by white space and the bracket. Two texts cut after
  one complete item, which closing by \<^verbatim>\<open>]}\<close> makes valid, are repaired into texts that do not
  parse: one has a bracket inside a string, the other a space before the colon.
\<close>

theorem truncated_schedule_counterexample:
  "includes_str (lit ''\"schedule\"'') (lit ''{\"schedule\": [{\"time\": \"9\", \"activity\": \"[\", \"duration\": \"1\", \"type\": \"x\"}'') \<and>
   \<not> includes_str (lit ''\"summary\"'') (lit ''{\"schedule\": [{\"time\": \"9\", \"activity\": \"[\", \"duration\": \"1\", \"type\": \"x\"}'') \<and>
   JSON_parse (lit ''{\"schedule\": [{\"time\": \"9\", \"activity\": \"[\", \"duration\": \"1\", \"type\": \"x\"}'' @ lit '']}'') =
     Some (JObject [(lit ''schedule'', JArray [scheduleItem (lit ''9'') (lit ''['') (lit ''1'') (lit ''x'')])]) \<and>
   JSON_parse (repairTruncated (lit ''{\"schedule\": [{\"time\": \"9\", \"activity\": \"[\", \"duration\": \"1\", \"type\": \"x\"}'')) = None \<and>
   includes_str (lit ''\"schedule\"'') (lit ''{\"schedule\" : [{\"time\": \"9\", \"activity\": \"a\", \"duration\": \"1\", \"type\": \"x\"}'') \<and>
   \<not> includes_str (lit ''\"summary\"'') (lit ''{\"schedule\" : [{\"time\": \"9\", \"activity\": \"a\", \"duration\": \"1\", \"type\": \"x\"}'') \<and>
   JSON_parse (lit ''{\"schedule\" : [{\"time\": \"9\", \"activity\": \"a\", \"duration\": \"1\", \"type\": \"x\"}'' @ lit '']}'') =
     Some (JObject [(lit ''schedule'', JArray [scheduleItem (lit ''9'') (lit ''a'') (lit ''1'') (lit ''x'')])]) \<and>
   JSON_parse (repairTruncated (lit ''{\"schedule\" : [{\"time\": \"9\", \"activity\": \"a\", \"duration\": \"1\", \"type\": \"x\"}'')) = None"
proof -
  let ?c1 = "lit ''{\"schedule\": [{\"time\": \"9\", \"activity\": \"[\", \"duration\": \"1\", \"type\": \"x\"}''"
  let ?c2 = "lit ''{\"schedule\" : [{\"time\": \"9\", \"activity\": \"a\", \"duration\": \"1\", \"type\": \"x\"}''"
  have a1: "includes_str (lit ''\"schedule\"'') ?c1" "\<not> includes_str (lit ''\"summary\"'') ?c1"
    by (simp_all add: lit_def)
  have b1: "JSON_parse (?c1 @ lit '']}'') =
     Some (JObject [(lit ''schedule'', JArray [scheduleItem (lit ''9'') (lit ''['') (lit ''1'') (lit ''x'')])])"
    by (simp add: json_eval scheduleItem_def)
  have r1: "repairTruncated ?c1 = ?c1 @ lit '']], \"summary\": \"Daily schedule generated based on your preferences and tasks.\"}''"
    by (simp add: clean_eval lit_def)
  have c1: "JSON_parse (repairTruncated ?c1) = None" unfolding r1 by (simp add: json_eval)
  have a2: "includes_str (lit ''\"schedule\"'') ?c2" "\<not> includes_str (lit ''\"summary\"'') ?c2"
    by (simp_all add: lit_def)
  have b2: "JSON_parse (?c2 @ lit '']}'') =
     Some (JObject [(lit ''schedule'', JArray [scheduleItem (lit ''9'') (lit ''a'') (lit ''1'') (lit ''x'')])])"
    by (simp add: json_eval scheduleItem_def)
  have r2: "repairTruncated ?c2 = ?c2" by (simp add: clean_eval lit_def)
  have c2: "JSON_parse (repairTruncated ?c2) = None" unfolding r2 by (simp add: json_eval)
  from a1 b1 c1 a2 b2 c2 show ?thesis by blast
qed

text \<open>
  C1, amended: let a cleaned text without \<^verbatim>\<open>"summary"\<close> match the pattern of the repair
  from its first brace on, with exactly one bracket and one brace more opened than closed
  (counted over the whole match), and let the match, without its trailing comma and closed
  by \<^verbatim>\<open>]}\<close>, be the JSON text of an object whose only member \<^verbatim>\<open>schedule\<close> is an array of items.
  Then the repaired text parses to the object with that same array as \<^verbatim>\<open>schedule\<close> and the
  fixed text as \<^verbatim>\<open>summary\<close>.
\<close>

theorem truncated_schedule_repaired:
  assumes "\<not> includes_str (lit ''\"summary\"'') c"
    and "scheduleMatch c = Some m"
    and "countChar 91 m = countChar 93 m + 1" and "countChar 123 m = countChar 125 m + 1"
    and "JSON_parse (stripTrailingComma m @ lit '']}'') =
           Some (JObject [(lit ''schedule'', JArray items)])"
  shows "JSON_parse (repairTruncated c) =
           Some (JObject [(lit ''schedule'', JArray items),
                          (lit ''summary'',
                           JStr (lit ''Daily schedule generated based on your preferences and tasks.''))])"
proof -
  let ?b = "stripTrailingComma m"
  let ?kvs = "[(lit ''schedule'', JArray items)]"
  let ?tail = "lit '', \"summary\": \"'' @ fallbackSummary @ lit ''\"'' @ [125]"
  let ?init = "(LIdle, (EValue, []))"
  have "sublist m c" using scheduleMatch_suffix [OF assms(2)] by (rule suffix_imp_sublist)
  with assms(1) have nm: "\<not> includes_str (lit ''\"summary\"'') m"
    unfolding includes_str_sublist using sublist_trans by blast
  have rep: "repairTruncated c = ?b @ [93] @ ?tail"
    using assms(1,2) scheduleMatch_includes [OF assms(2)] closeSchedule_one_open [OF nm assms(3,4)]
    by (simp add: repairTruncated_def)
  have "lit '']}'' = [93, 125]" by (simp add: lit_def)
  with assms(5) obtain s2 where "run ?init (?b @ [93, 125]) = Some s2"
    and f: "finish s2 = Some (JObject ?kvs)"
    by (auto dest: JSON_parse_Some)
  then obtain s s1 where r: "run ?init ?b = Some s"
    and s1: "step 93 s = Some s1" and s2: "step 125 s1 = Some s2"
    by (blast dest: run_snoc2)
  have s1': "s1 = (LIdle, (ESep, [InObj ?kvs]))" by (rule bracket_brace_object [OF s1 s2 f])
  have "run ?init (?b @ 93 # ?tail) = run s1 ?tail"
    by (subst run_append) (simp add: r s1)
  also have "\<dots> = Some (LIdle, (EDone (JObject (AList.update (lit ''summary'') (JStr fallbackSummary) ?kvs)), []))"
    unfolding s1' by (rule run_fallback_summary)
  finally have "JSON_parse (repairTruncated c) =
      Some (JObject (AList.update (lit ''summary'') (JStr fallbackSummary) ?kvs))"
    unfolding rep by (simp add: JSON_parse_def)
  moreover have "lit ''schedule'' \<noteq> lit ''summary''" by (simp add: lit_def)
  ultimately show ?thesis by (simp add: fallbackSummary_def)
qed

theorem truncated_schedule_repaired_witness:
  "\<not> includes_str (lit ''\"summary\"'') (lit ''{\"schedule\": [{\"time\": \"09:00\", \"activity\": \"Run\", \"duration\": \"30\", \"type\": \"task\"},'') \<and>
   scheduleMatch (lit ''{\"schedule\": [{\"time\": \"09:00\", \"activity\": \"Run\", \"duration\": \"30\", \"type\": \"task\"},'') =
     Some (lit ''{\"schedule\": [{\"time\": \"09:00\", \"activity\": \"Run\", \"duration\": \"30\", \"type\": \"task\"},'') \<and>
   countChar 91 (lit ''{\"schedule\": [{\"time\": \"09:00\", \"activity\": \"Run\", \"duration\": \"30\", \"type\": \"task\"},'') =
     countChar 93 (lit ''{\"schedule\": [{\"time\": \"09:00\", \"activity\": \"Run\", \"duration\": \"30\", \"type\": \"task\"},'') + 1 \<and>
   countChar 123 (lit ''{\"schedule\": [{\"time\": \"09:00\", \"activity\": \"Run\", \"duration\": \"30\", \"type\": \"task\"},'') =
     countChar 125 (lit ''{\"schedule\": [{\"time\": \"09:00\", \"activity\": \"Run\", \"duration\": \"30\", \"type\": \"task\"},'') + 1 \<and>
   JSON_parse (stripTrailingComma (lit ''{\"schedule\": [{\"time\": \"09:00\", \"activity\": \"Run\", \"duration\": \"30\", \"type\": \"task\"},'') @ lit '']}'') =
     Some (JObject [(lit ''schedule'', JArray [scheduleItem (lit ''09:00'') (lit ''Run'') (lit ''30'') (lit ''task'')])]) \<and>
   JSON_parse (repairTruncated (lit ''{\"schedule\": [{\"time\": \"09:00\", \"activity\": \"Run\", \"duration\": \"30\", \"type\": \"task\"},'')) =
     Some (JObject [(lit ''schedule'', JArray [scheduleItem (lit ''09:00'') (lit ''Run'') (lit ''30'') (lit ''task'')]),
                    (lit ''summary'', JStr (lit ''Daily schedule generated based on your preferences and tasks.''))])"
proof -
  let ?c = "lit ''{\"schedule\": [{\"time\": \"09:00\", \"activity\": \"Run\", \"duration\": \"30\", \"type\": \"task\"},''"
  have a: "\<not> includes_str (lit ''\"summary\"'') ?c" by (simp add: lit_def)
  have b: "scheduleMatch ?c = Some ?c" by (simp add: scheduleMatch_def scheduleArrayAt_def lit_def is_space_def)
  have c: "countChar 91 ?c = countChar 93 ?c + 1" by (simp add: countChar_def lit_def)
  have d: "countChar 123 ?c = countChar 125 ?c + 1" by (simp add: countChar_def lit_def)
  have e: "JSON_parse (stripTrailingComma ?c @ lit '']}'') =
     Some (JObject [(lit ''schedule'', JArray [scheduleItem (lit ''09:00'') (lit ''Run'') (lit ''30'') (lit ''task'')])])"
    by (simp add: json_eval scheduleItem_def is_space_def)
  from truncated_schedule_repaired [OF a b c d e] a b c d e show ?thesis by simp
qed

section \<open>Markdown fences\<close>

lemma json_ws_is_space: "is_json_ws c \<Longrightarrow> is_space c"
  by (auto simp: is_json_ws_def is_space_def)

lemma list_all_json_ws_space: "list_all is_json_ws ws \<Longrightarrow> list_all is_space ws"
  by (induction ws) (auto dest: json_ws_is_space)

lemma dropWhile_all: "list_all P xs \<Longrightarrow> \<not> P y \<Longrightarrow> dropWhile P (xs @ y # ys) = y # ys"
  by (induction xs) auto

lemma in_set_dropWhile: "x \<in> set xs \<Longrightarrow> \<not> P x \<Longrightarrow> x \<in> set (dropWhile P xs)"
  by (induction xs) auto

lemma trim_id:
  assumes "s \<noteq> []" and "\<not> is_space (hd s)" and "\<not> is_space (last s)"
  shows "trim s = s"
proof -
  from assms(1,2) have a: "dropWhile is_space s = s" by (cases s) auto
  from assms(1,3) have "dropWhile is_space (rev s) = rev s" by (cases s rule: rev_cases) auto
  with a show ?thesis by (simp add: trim_def)
qed

lemma stripFenceEnd_fence:
  assumes "list_all is_space ws"
  shows "stripFenceEnd (xs @ 125 # ws @ lit ''```'') = xs @ [125]"
proof (induction xs)
  case Nil
  have d: "dropWhile is_space (ws @ lit ''```'') = lit ''```''"
    using dropWhile_all [OF assms, of 96 "[96, 96]"] by (simp add: lit_def is_space_def)
  have n: "dropWhile is_space (125 # ws @ lit ''```'') \<noteq> lit ''```''"
    by (simp add: is_space_def lit_def)
  have "stripFenceEnd (ws @ lit ''```'') = []"
  proof (cases "ws @ lit ''```''")
    case Nil
    then show ?thesis by (simp add: lit_def)
  next
    case (Cons c cs)
    with d show ?thesis by simp
  qed
  with n show ?case by simp
next
  case (Cons x xs)
  have "125 \<in> set ((x # xs) @ 125 # ws @ lit ''```'')" by simp
  moreover have "\<not> is_space 125" by (simp add: is_space_def)
  ultimately have "125 \<in> set (dropWhile is_space ((x # xs) @ 125 # ws @ lit ''```''))"
    by (rule in_set_dropWhile)
  then have "dropWhile is_space ((x # xs) @ 125 # ws @ lit ''```'') \<noteq> lit ''```''"
    by (auto simp: lit_def)
  with Cons show ?case by simp
qed

lemma space_not_j: "is_space r \<Longrightarrow> ascii_lower r \<noteq> 106"
  by (auto simp: is_space_def ascii_lower_def)

lemma ascii_lower_json_length:
  assumes "map ascii_lower tag = lit ''json''"
  shows "length tag = 4"
proof -
  from assms have "length (map ascii_lower tag) = length (lit ''json'')" by simp
  then show ?thesis by (simp add: lit_def)
qed

lemma extractBraces_object: "extractBraces (123 # mid @ [125]) = 123 # mid @ [125]"
  by (simp add: extractBraces_def braceSpan_def)

lemma cleaned_fenced:
  assumes "tag = [] \<or> map ascii_lower tag = lit ''json''"
    and "list_all is_space R" and "list_all is_space T"
  shows "trim (extractBraces (cleanFences (trim
           (lit ''```'' @ tag @ R @ (123 # mid @ [125]) @ T @ lit ''```'')))) = 123 # mid @ [125]"
proof -
  let ?F = "lit ''```''"
  let ?core = "123 # mid @ [125]"
  let ?W = "?F @ tag @ R @ ?core @ T @ ?F"
  let ?rest = "?core @ T @ ?F"
  have F: "?F = [96, 96, 96]" by (simp add: lit_def)
  have "trim ?W = ?W" by (rule trim_id) (simp_all add: F is_space_def)
  moreover have "stripFence (stripFenceJson ?W) = ?rest"
    using assms(1)
  proof
    assume e: "tag = []"
    have W: "?W = ?F @ R @ ?rest" using e by simp
    have "map ascii_lower (take 7 (?F @ R @ ?rest)) \<noteq> lit ''```json''"
    proof (cases R)
      case Nil
      then show ?thesis by (simp add: F lit_def ascii_lower_def)
    next
      case (Cons r R')
      with assms(2) have "is_space r" by simp
      then have "ascii_lower r \<noteq> 106" by (rule space_not_j)
      with Cons show ?thesis by (simp add: lit_def)
    qed
    then have "stripFenceJson (?F @ R @ ?rest) = ?F @ R @ ?rest"
      unfolding stripFenceJson_def by (simp only: if_False)
    moreover have dw: "dropWhile is_space (R @ ?rest) = ?rest"
      using dropWhile_all [OF assms(2), of 123] by (simp add: is_space_def)
    moreover have "take 3 (?F @ R @ ?rest) = ?F" "drop 3 (?F @ R @ ?rest) = R @ ?rest"
      by (simp_all add: F)
    ultimately have "stripFence (stripFenceJson (?F @ R @ ?rest)) = ?rest"
      by (simp only: stripFence_def simp_thms if_True)
    then show ?thesis by (simp only: W)
  next
    assume j: "map ascii_lower tag = lit ''json''"
    then have l: "length tag = 4" by (rule ascii_lower_json_length)
    then have tk: "take 7 ?W = ?F @ tag" and dr: "drop 7 ?W = R @ ?rest" by (simp_all add: F)
    have "map ascii_lower (?F @ tag) = lit ''```json''"
      using j by (simp add: lit_def ascii_lower_def)
    then have lw: "map ascii_lower (take 7 ?W) = lit ''```json''" by (simp only: tk)
    have dw: "dropWhile is_space (R @ ?rest) = ?rest"
      using dropWhile_all [OF assms(2), of 123] by (simp add: is_space_def)
    have "stripFenceJson ?W = dropWhile is_space (drop 7 ?W)"
      unfolding stripFenceJson_def by (simp only: lw simp_thms if_True)
    also have "\<dots> = ?rest" by (simp only: dr dw)
    finally have "stripFenceJson ?W = ?rest" .
    moreover have "take 3 ?rest \<noteq> ?F" by (simp add: F)
    ultimately show ?thesis by (simp only: stripFence_def if_False)
  qed
  moreover have "stripFenceEnd ?rest = ?core"
    using stripFenceEnd_fence [OF assms(3), of "123 # mid"] by simp
  moreover have "trim ?core = ?core" by (rule trim_id) (simp_all add: is_space_def)
  ultimately show ?thesis by (simp add: cleanFences_def extractBraces_object)
qed

lemma planSchema_object: "planSchema v \<Longrightarrow> \<exists>kvs. v = JObject kvs"
  by (cases v) (auto simp: planSchema_def)

lemma JSON_parse_backquote: "JSON_parse (lit ''```'' @ s) = None"
  by (simp add: JSON_parse_def lit_def idle_step_def is_json_ws_def is_digit_def)

text \<open>
  C5, as stated: a schema-valid object text between fences gives the value of the text
  without them. It does not where the text spells the key \<^verbatim>\<open>summary\<close> with an escape: the
  bare text parses directly, the fenced one is taken for a truncated schedule, is repaired
  into a text that does not parse, and is scraped; the summary becomes the fixed text.
\<close>

theorem fenced_plan_counterexample:
  "JSON_parse (lit ''{\"schedule\": [], \"summar'' @ [92] @ lit ''u0079\": \"x\"}'') = Some (plan [] (lit ''x'')) \<and>
   planSchema (plan [] (lit ''x'')) \<and>
   parseAIResponse (lit ''{\"schedule\": [], \"summar'' @ [92] @ lit ''u0079\": \"x\"}'') = Inr (plan [] (lit ''x'')) \<and>
   parseAIResponse (lit ''```'' @ lit ''{\"schedule\": [], \"summar'' @ [92] @ lit ''u0079\": \"x\"}'' @ lit ''```'') =
     Inr (plan [] (lit ''Daily schedule generated based on your preferences and tasks.''))"
proof -
  let ?t = "lit ''{\"schedule\": [], \"summar'' @ [92] @ lit ''u0079\": \"x\"}''"
  have a: "JSON_parse ?t = Some (plan [] (lit ''x''))" by (simp add: json_eval plan_def)
  have b: "planSchema (plan [] (lit ''x''))" by (simp add: planSchema_def plan_def lit_def)
  have c: "parseAIResponse ?t = Inr (plan [] (lit ''x''))"
    using a by (simp add: parseAIResponse_def parseAIResponse_with_def)
  have d: "cleanedContent (lit ''```'' @ ?t @ lit ''```'') =
      ?t @ lit '', \"summary\": \"Daily schedule generated based on your preferences and tasks.\"''"
    by (simp add: clean_eval lit_def)
  have e: "JSON_parse (?t @ lit '', \"summary\": \"Daily schedule generated based on your preferences and tasks.\"'') = None"
    by (simp add: json_eval)
  have f: "JSON_parse (lit ''```'' @ ?t @ lit ''```'') = None" by (simp add: json_eval)
  have g: "scrapedItems (?t @ lit '', \"summary\": \"Daily schedule generated based on your preferences and tasks.\"'') = []"
    by (simp add: scrapedItems_def scrape_eval lit_def is_space_def)
  have h: "includes_str (lit ''\"schedule\"'') (?t @ lit '', \"summary\": \"Daily schedule generated based on your preferences and tasks.\"'')"
    by (simp add: lit_def)
  have "parseAIResponse (lit ''```'' @ ?t @ lit ''```'') =
     Inr (plan (scrapedItems (cleanedContent (lit ''```'' @ ?t @ lit ''```''))) fallbackSummary)"
    by (rule parseAIResponse_scrapes) (simp_all only: d e f h)
  then have "parseAIResponse (lit ''```'' @ ?t @ lit ''```'') =
     Inr (plan [] (lit ''Daily schedule generated based on your preferences and tasks.''))"
    by (simp only: d g fallbackSummary_def)
  with a b c show ?thesis by simp
qed

text \<open>
  C5, amended: for a schema-valid object text that contains \<^verbatim>\<open>"summary"\<close> literally, or does
  not contain \<^verbatim>\<open>"schedule"\<close> literally, the text between three backquotes (alone or followed
  by \<^verbatim>\<open>json\<close> in any case) and three backquotes, with any white space inside the fences,
  gives the same result as the text alone.
\<close>

theorem fenced_plan_same_value:
  assumes "JSON_parse t = Some v" and "planSchema v"
    and "tag = [] \<or> map ascii_lower tag = lit ''json''"
    and "list_all is_space w1" and "list_all is_space w2"
    and "includes_str (lit ''\"summary\"'') t \<or> \<not> includes_str (lit ''\"schedule\"'') t"
  shows "parseAIResponse (lit ''```'' @ tag @ w1 @ t @ w2 @ lit ''```'') = parseAIResponse t"
proof -
  from assms(2) obtain kvs where v: "v = JObject kvs" by (blast dest: planSchema_object)
  with assms(1) object_text_shape obtain ws1 mid ws2
    where t: "t = ws1 @ (123 # mid @ [125]) @ ws2"
      and w: "list_all is_json_ws ws1" "list_all is_json_ws ws2"
      and p: "JSON_parse (123 # mid @ [125]) = Some v"
    by blast
  let ?core = "123 # mid @ [125]"
  let ?W = "lit ''```'' @ tag @ w1 @ t @ w2 @ lit ''```''"
  have W: "?W = lit ''```'' @ tag @ (w1 @ ws1) @ ?core @ (ws2 @ w2) @ lit ''```''"
    by (simp add: t)
  have sp: "list_all is_space (w1 @ ws1)" "list_all is_space (ws2 @ w2)"
    using assms(4,5) w by (simp_all add: list_all_json_ws_space)
  have pre: "trim (extractBraces (cleanFences (trim ?W))) = ?core"
    unfolding W by (rule cleaned_fenced [OF assms(3) sp])
  have "includes_str (lit ''\"summary\"'') ?core \<or> \<not> includes_str (lit ''\"schedule\"'') ?core"
    using assms(6)
  proof
    assume "includes_str (lit ''\"summary\"'') t"
    then have s: "sublist (lit ''\"summary\"'') (ws1 @ ?core @ ws2)"
      by (simp add: includes_str_sublist t)
    have q: "lit ''\"summary\"'' \<noteq> []" "hd (lit ''\"summary\"'') = 34" "last (lit ''\"summary\"'') = 34"
      by (simp_all add: lit_def)
    have h: "hd (lit ''\"summary\"'') \<notin> set ws1" "last (lit ''\"summary\"'') \<notin> set ws2"
      using q w by (simp_all add: json_ws_not_quote)
    from s q(1) h(1) have "sublist (lit ''\"summary\"'') (?core @ ws2)"
      by (rule sublist_strip_left)
    from this q(1) h(2) have "sublist (lit ''\"summary\"'') ?core"
      by (rule sublist_strip_right)
    then show ?thesis by (simp add: includes_str_sublist)
  next
    assume n: "\<not> includes_str (lit ''\"schedule\"'') t"
    have "sublist ?core t" unfolding t by (rule sublist_appendI)
    with n have "\<not> includes_str (lit ''\"schedule\"'') ?core"
      unfolding includes_str_sublist using sublist_trans by blast
    then show ?thesis ..
  qed
  then have "repairTruncated ?core = ?core" by (auto simp: repairTruncated_def)
  with pre have c: "cleanedContent ?W = ?core" by (simp only: cleanedContent_def)
  have "JSON_parse ?W = None" by (rule JSON_parse_backquote)
  with c p have "parseAIResponse ?W = Inr v"
    by (simp only: parseAIResponse_def parseAIResponse_with_def Let_def option.case)
  with parseAIResponse_direct [OF assms(1)] show ?thesis by simp
qed

theorem fenced_plan_same_value_witness:
  "JSON_parse (lit ''{\"schedule\": [], \"summary\": \"ok\"}'') = Some (plan [] (lit ''ok'')) \<and>
   planSchema (plan [] (lit ''ok'')) \<and>
   (lit ''json'' = [] \<or> map ascii_lower (lit ''json'') = lit ''json'') \<and>
   list_all is_space [10] \<and>
   (includes_str (lit ''\"summary\"'') (lit ''{\"schedule\": [], \"summary\": \"ok\"}'') \<or>
    \<not> includes_str (lit ''\"schedule\"'') (lit ''{\"schedule\": [], \"summary\": \"ok\"}'')) \<and>
   parseAIResponse (lit ''```'' @ lit ''json'' @ [10] @ lit ''{\"schedule\": [], \"summary\": \"ok\"}'' @ [10] @ lit ''```'') =
     Inr (plan [] (lit ''ok''))"
proof -
  let ?t = "lit ''{\"schedule\": [], \"summary\": \"ok\"}''"
  have a: "JSON_parse ?t = Some (plan [] (lit ''ok''))" by (simp add: json_eval plan_def)
  have b: "planSchema (plan [] (lit ''ok''))" by (simp add: planSchema_def plan_def lit_def)
  have c: "lit ''json'' = [] \<or> map ascii_lower (lit ''json'') = lit ''json''"
    by (simp add: lit_def ascii_lower_def)
  have d: "list_all is_space [10]" by (simp add: is_space_def)
  have e: "includes_str (lit ''\"summary\"'') ?t \<or> \<not> includes_str (lit ''\"schedule\"'') ?t"
    by (simp add: lit_def)
  have f: "parseAIResponse ?t = Inr (plan [] (lit ''ok''))"
    using a by (simp add: parseAIResponse_def parseAIResponse_with_def)
  from fenced_plan_same_value [OF a b c d d e] a b c d e f show ?thesis by simp
qed

section \<open>The prompt\<close>

text \<open>
  C7. Without tasks \<^verbatim>\<open>buildPrompt\<close> throws. With tasks, the prompt contains, between two
  line breaks, the lines of the tasks joined by line breaks in the order of the input; a
  line is the title or \<^verbatim>\<open>Untitled\<close>, an en dash, the duration or 30 followed by \<^verbatim>\<open>m\<close>, an en
  dash, and the importance or \<^verbatim>\<open>medium\<close>. The default stands for a missing or empty string
  and for a missing number, zero or NaN; any other duration is printed as JavaScript
  prints the number.
\<close>

theorem buildPrompt_task_lines:
  "buildPrompt p [] w = Inl (Error (lit ''No tasks provided for planning'')) \<and>
   (tasks \<noteq> [] \<longrightarrow>
      (\<exists>pre post. buildPrompt p tasks w =
         Inr (pre @ [10] @
              joinWith [10]
                (map (\<lambda>t. (case title t of None \<Rightarrow> lit ''Untitled''
                            | Some s \<Rightarrow> if s = [] then lit ''Untitled'' else s) @
                          [32, 8211, 32] @
                          (case duration_minutes t of None \<Rightarrow> lit ''30''
                           | Some n \<Rightarrow> if numberText n = lit ''0'' \<or> numberText n = lit ''NaN''
                                     then lit ''30'' else numberText n) @
                          lit ''m'' @ [32, 8211, 32] @
                          (case importance t of None \<Rightarrow> lit ''medium''
                           | Some s \<Rightarrow> if s = [] then lit ''medium'' else s)) tasks) @
              [10] @ post)))"
proof -
  have tl: "taskLine =
     (\<lambda>t. (case title t of None \<Rightarrow> lit ''Untitled''
                            | Some s \<Rightarrow> if s = [] then lit ''Untitled'' else s) @
                          [32, 8211, 32] @
                          (case duration_minutes t of None \<Rightarrow> lit ''30''
                           | Some n \<Rightarrow> if numberText n = lit ''0'' \<or> numberText n = lit ''NaN''
                                     then lit ''30'' else numberText n) @
                          lit ''m'' @ [32, 8211, 32] @
                          (case importance t of None \<Rightarrow> lit ''medium''
                           | Some s \<Rightarrow> if s = [] then lit ''medium'' else s))"
    by (rule ext) (simp add: taskLine_def orText_def orNumber_def falsyNumber_def split: option.splits)
  obtain pre where h: "promptHead p w = pre @ [10]"
    by (simp add: promptHead_def lit_def)
  obtain post where t: "promptTail p = [10] @ post"
    by (simp add: promptTail_def lit_def)
  show ?thesis
    unfolding buildPrompt_def tl h t by auto
qed

theorem buildPrompt_task_lines_witness:
  "[\<lparr>title = Some (lit ''Write''), duration_minutes = Some (Number (lit ''45.5'')), importance = Some (lit ''high'')\<rparr>,
    \<lparr>title = Some [], duration_minutes = Some (Number (lit ''0'')), importance = Some []\<rparr>,
    \<lparr>title = Some (lit ''Big''), duration_minutes = Some (Number (lit ''1e+21'')), importance = None\<rparr>,
    \<lparr>title = None, duration_minutes = None, importance = Some (lit ''low'')\<rparr>] \<noteq> [] \<and>
   (\<exists>pre post. buildPrompt None
       [\<lparr>title = Some (lit ''Write''), duration_minutes = Some (Number (lit ''45.5'')), importance = Some (lit ''high'')\<rparr>,
        \<lparr>title = Some [], duration_minutes = Some (Number (lit ''0'')), importance = Some []\<rparr>,
        \<lparr>title = Some (lit ''Big''), duration_minutes = Some (Number (lit ''1e+21'')), importance = None\<rparr>,
        \<lparr>title = None, duration_minutes = None, importance = Some (lit ''low'')\<rparr>] None =
      Inr (pre @ [10] @ lit ''Write '' @ [8211] @ lit '' 45.5m '' @ [8211] @ lit '' high'' @ [10] @
           lit ''Untitled '' @ [8211] @ lit '' 30m '' @ [8211] @ lit '' medium'' @ [10] @
           lit ''Big '' @ [8211] @ lit '' 1e+21m '' @ [8211] @ lit '' medium'' @ [10] @
           lit ''Untitled '' @ [8211] @ lit '' 30m '' @ [8211] @ lit '' low'' @ [10] @ post))"
proof -
  let ?ts = "[\<lparr>title = Some (lit ''Write''), duration_minutes = Some (Number (lit ''45.5'')), importance = Some (lit ''high'')\<rparr>,
    \<lparr>title = Some [], duration_minutes = Some (Number (lit ''0'')), importance = Some []\<rparr>,
    \<lparr>title = Some (lit ''Big''), duration_minutes = Some (Number (lit ''1e+21'')), importance = None\<rparr>,
    \<lparr>title = None, duration_minutes = None, importance = Some (lit ''low'')\<rparr>]"
  have ne: "?ts \<noteq> []" by simp
  from buildPrompt_task_lines [of None None ?ts] ne
  obtain pre post where "buildPrompt None ?ts None =
         Inr (pre @ [10] @
              joinWith [10]
                (map (\<lambda>t. (case title t of None \<Rightarrow> lit ''Untitled''
                            | Some s \<Rightarrow> if s = [] then lit ''Untitled'' else s) @
                          [32, 8211, 32] @
                          (case duration_minutes t of None \<Rightarrow> lit ''30''
                           | Some n \<Rightarrow> if numberText n = lit ''0'' \<or> numberText n = lit ''NaN''
                                     then lit ''30'' else numberText n) @
                          lit ''m'' @ [32, 8211, 32] @
                          (case importance t of None \<Rightarrow> lit ''medium''
                           | Some s \<Rightarrow> if s = [] then lit ''medium'' else s)) ?ts) @
              [10] @ post)" by blast
  then have "buildPrompt None ?ts None =
      Inr (pre @ [10] @ lit ''Write '' @ [8211] @ lit '' 45.5m '' @ [8211] @ lit '' high'' @ [10] @
           lit ''Untitled '' @ [8211] @ lit '' 30m '' @ [8211] @ lit '' medium'' @ [10] @
           lit ''Big '' @ [8211] @ lit '' 1e+21m '' @ [8211] @ lit '' medium'' @ [10] @
           lit ''Untitled '' @ [8211] @ lit '' 30m '' @ [8211] @ lit '' low'' @ [10] @ post)"
    by (simp add: lit_def)
  then show ?thesis using ne by blast
qed

section \<open>The plan handler\<close>

text \<open>
  C8. For an authenticated user with a preferences row and no task for the day, the
  handler answers 400, and the calls made up to then are the token check and the three
  queries: no weather, picture or completion request and no write of a plan.
\<close>

theorem no_tasks_rejected_before_external_calls:
  assumes "verifiedSub w = Returns userId" and "selectPrefs w = Returns (p # ps)"
    and "selectTasks w = Returns []"
  shows "\<exists>trace. generatePlan w =
           (trace, Inr \<lparr>code = 400,
                        content = ErrorBody (lit ''No tasks found for today. Please add some tasks first.'')\<rparr>) \<and>
         FetchWeather \<notin> set trace \<and> FetchApod \<notin> set trace \<and>
         FetchCompletion \<notin> set trace \<and> InsertPlan \<notin> set trace"
  using assms by (simp add: generatePlan_def ensureUser_def json_response_def)

theorem no_tasks_rejected_before_external_calls_witness:
  "verifiedSub idleWorld = Returns (lit ''user_1'') \<and> selectPrefs idleWorld = Returns (somePrefs # []) \<and>
   selectTasks idleWorld = Returns [] \<and>
   generatePlan idleWorld =
     ([VerifyToken, InsertUser, SelectPrefs, SelectTasks],
      Inr \<lparr>code = 400, content = ErrorBody (lit ''No tasks found for today. Please add some tasks first.'')\<rparr>)"
proof -
  have a: "verifiedSub idleWorld = Returns (lit ''user_1'')" by (simp add: idleWorld_def)
  have b: "selectPrefs idleWorld = Returns (somePrefs # [])" by (simp add: idleWorld_def)
  have c: "selectTasks idleWorld = Returns []" by (simp add: idleWorld_def)
  from no_tasks_rejected_before_external_calls [OF a b c]
  obtain trace where g: "generatePlan idleWorld =
           (trace, Inr \<lparr>code = 400,
                        content = ErrorBody (lit ''No tasks found for today. Please add some tasks first.'')\<rparr>)"
    by blast
  have "fst (generatePlan idleWorld) = [VerifyToken, InsertUser, SelectPrefs, SelectTasks]"
    using a b c by (simp add: generatePlan_def ensureUser_def)
  with g a b c show ?thesis by simp
qed

text \<open>
  C9. When the completion has been parsed into a plan and the write of the plan fails, the
  handler still answers 200 with that plan, the picture and the weather; the write was
  attempted, and the answer is the one given when the write succeeds.
\<close>

theorem plan_returned_when_persist_fails:
  assumes "verifiedSub w = Returns userId" and "selectPrefs w = Returns (p # ps)"
    and "selectTasks w = Returns tasks" and "tasks \<noteq> []"
    and "mistralReply w = Returns r" and "ok r" and "payload r = Returns (Some rawContent)"
    and "parseAIResponse rawContent = Inr v"
    and "insertPlan w = Throws e"
  shows "snd (generatePlan w) =
           Inr \<lparr>code = 200, content = PlanBody v (snd (fetchApod w)) (snd (fetchWeather w p))\<rparr> \<and>
         InsertPlan \<in> set (fst (generatePlan w)) \<and>
         snd (generatePlan (w\<lparr>insertPlan := Returns ()\<rparr>)) = snd (generatePlan w)"
  using assms
  by (simp add: generatePlan_def buildPrompt_def fetchPlan_def persistPlan_def ensureUser_def
      fetchWeather_def fetchApod_def json_response_def split_def Let_def)

theorem plan_returned_when_persist_fails_witness:
  "verifiedSub failingStoreWorld = Returns (lit ''user_1'') \<and>
   selectPrefs failingStoreWorld = Returns (somePrefs # []) \<and>
   selectTasks failingStoreWorld = Returns [someTask] \<and> [someTask] \<noteq> [] \<and>
   mistralReply failingStoreWorld = Returns someReply \<and> ok someReply \<and>
   payload someReply = Returns (Some (lit ''{\"schedule\": [], \"summary\": \"ok\"}'')) \<and>
   parseAIResponse (lit ''{\"schedule\": [], \"summary\": \"ok\"}'') = Inr (plan [] (lit ''ok'')) \<and>
   insertPlan failingStoreWorld = Throws (lit ''connection lost'') \<and>
   snd (generatePlan failingStoreWorld) =
     Inr \<lparr>code = 200, content = PlanBody (plan [] (lit ''ok'')) None unknownWeather\<rparr>"
proof -
  have a: "verifiedSub failingStoreWorld = Returns (lit ''user_1'')" by (simp add: failingStoreWorld_def)
  have b: "selectPrefs failingStoreWorld = Returns (somePrefs # [])" by (simp add: failingStoreWorld_def)
  have c: "selectTasks failingStoreWorld = Returns [someTask]" by (simp add: failingStoreWorld_def)
  have d: "[someTask] \<noteq> []" by simp
  have f: "mistralReply failingStoreWorld = Returns someReply" by (simp add: failingStoreWorld_def)
  have g: "ok someReply" by (simp add: someReply_def)
  have h: "payload someReply = Returns (Some (lit ''{\"schedule\": [], \"summary\": \"ok\"}''))"
    by (simp add: someReply_def)
  have i: "parseAIResponse (lit ''{\"schedule\": [], \"summary\": \"ok\"}'') = Inr (plan [] (lit ''ok''))"
    by (simp add: parseAIResponse_def parseAIResponse_with_def json_eval plan_def)
  have j: "insertPlan failingStoreWorld = Throws (lit ''connection lost'')" by (simp add: failingStoreWorld_def)
  have k: "snd (fetchApod failingStoreWorld) = None" by (simp add: fetchApod_def failingStoreWorld_def)
  have l: "snd (fetchWeather failingStoreWorld somePrefs) = unknownWeather"
    by (simp add: fetchWeather_def failingStoreWorld_def)
  from plan_returned_when_persist_fails [OF a b c d f g h i j] a b c d f g h i j k l
  show ?thesis by simp
qed

end
